theory Spec2Isabelle
  imports Main "HOL-Library.Word"
begin

unbundle bit_operations_syntax

section \<open>The NPCM8xx clock driver (drivers/clk/nuvoton/clk\_npcm8xx.c)\<close>

text \<open>
  The driver runs on a 64-bit core: \<open>ulong\<close> and \<open>u64\<close> are 64-bit words, \<open>u32\<close> is a
  32-bit word, \<open>u8\<close> an 8-bit word. Arithmetic on them wraps around.
\<close>

type_synonym u8 = "8 word"
type_synonym u32 = "32 word"
type_synonym ulong = "64 word"

subsection \<open>Helpers of the kernel headers\<close>

text \<open>
  Modelled from the spec: the kernel headers the driver includes (linux/bitops.h,
  linux/bits.h, linux/bitfield.h, linux/log2.h, linux/kernel.h, div64.h and the error
  numbers) are not part of the sources at hand. The spec's field codec shifts by the
  index of the mask's lowest set bit; the source writes that index \<open>ffs(mask) - 1\<close>,
  where \<open>ffs\<close> is the position of the lowest set bit counted from 1, and 0 for the
  word 0. \<open>fls\<close> is the position of the highest set bit, counted from 1, and 0 for 0.
\<close>

definition ffs :: "'a::len word \<Rightarrow> nat" where
  "ffs w = (case find (bit w) [0..<LENGTH('a)] of None \<Rightarrow> 0 | Some n \<Rightarrow> Suc n)"

definition fls :: "'a::len word \<Rightarrow> nat" where
  "fls w = (case find (bit w) (rev [0..<LENGTH('a)]) of None \<Rightarrow> 0 | Some n \<Rightarrow> Suc n)"

text \<open>
  Modelled from the spec: \<open>GENMASK(h, l)\<close> is the mask with the bits \<open>l..h\<close> set (the
  spec's sub-fields of 6, 12, 3 and 3 bits of a PLL control register), \<open>BIT(n)\<close> the
  word with bit \<open>n\<close> set.
\<close>

definition GENMASK :: "nat \<Rightarrow> nat \<Rightarrow> u32" where
  "GENMASK h l = push_bit l (mask (Suc h - l))"

definition BIT :: "nat \<Rightarrow> u32" where
  "BIT n = push_bit n 1"

text \<open>
  Modelled from the spec: \<open>FIELD_GET(mask, val)\<close> is the codec's extract,
  \<open>(val & mask) >> (ffs(mask) - 1)\<close>. The source uses it with constant non-zero masks
  only and stores the result in a \<open>ulong\<close>.
\<close>

definition FIELD_GET :: "u32 \<Rightarrow> u32 \<Rightarrow> ulong" where
  "FIELD_GET m val = ucast (drop_bit (ffs m - 1) (val AND m))"

text \<open>
  Modelled from the spec: \<open>ilog2\<close> is the truncating binary logarithm. For a 32-bit
  variable it is \<open>fls(n) - 1\<close>, an \<open>int\<close>; the source stores it in a \<open>u32\<close>, so
  \<open>ilog2(0) = -1\<close> becomes \<open>0xFFFFFFFF\<close>.
\<close>

definition ilog2 :: "u32 \<Rightarrow> u32" where
  "ilog2 n = of_nat (fls n) - 1"

text \<open>
  Modelled from the spec: the error kinds \<open>NotImplemented\<close> and
  \<open>UnknownSelectorEncoding\<close> are the error numbers \<open>ENOSYS\<close> and \<open>EINVAL\<close> of the source,
  with their values of linux/errno.h.
\<close>

definition ENOSYS :: int where "ENOSYS = 38"
definition EINVAL :: int where "EINVAL = 22"

subsection \<open>Register offsets, masks and flags\<close>

definition CLKSEL :: nat where "CLKSEL = 0x04"
definition CLKDIV1 :: u8 where "CLKDIV1 = 0x08"
definition CLKDIV2 :: u8 where "CLKDIV2 = 0x2C"
definition CLKDIV3 :: u8 where "CLKDIV3 = 0x58"
definition PLLCON0 :: u8 where "PLLCON0 = 0x0C"
definition PLLCON1 :: u8 where "PLLCON1 = 0x10"
definition PLLCON2 :: u8 where "PLLCON2 = 0x54"

definition PLLCON_INDV :: u32 where "PLLCON_INDV = GENMASK 5 0"
definition PLLCON_FBDV :: u32 where "PLLCON_FBDV = GENMASK 27 16"
definition PLLCON_OTDV1 :: u32 where "PLLCON_OTDV1 = GENMASK 10 8"
definition PLLCON_OTDV2 :: u32 where "PLLCON_OTDV2 = GENMASK 15 13"

definition CPUCKSEL :: u32 where "CPUCKSEL = GENMASK 2 0"
definition SDCKSEL :: u32 where "SDCKSEL = GENMASK 7 6"
definition UARTCKSEL :: u32 where "UARTCKSEL = GENMASK 9 8"

definition CPUCKSEL_PLL0 :: u8 where "CPUCKSEL_PLL0 = 0"
definition CPUCKSEL_PLL1 :: u8 where "CPUCKSEL_PLL1 = 1"
definition CPUCKSEL_REFCLK :: u8 where "CPUCKSEL_REFCLK = 2"
definition CPUCKSEL_PLL2 :: u8 where "CPUCKSEL_PLL2 = 7"
definition CKSEL_PLL0 :: u8 where "CKSEL_PLL0 = 0"
definition CKSEL_PLL1 :: u8 where "CKSEL_PLL1 = 1"
definition CKSEL_REFCLK :: u8 where "CKSEL_REFCLK = 2"
definition CKSEL_PLL2 :: u8 where "CKSEL_PLL2 = 3"

definition CLK4DIV :: u32 where "CLK4DIV = GENMASK 27 26"
definition UARTDIV1 :: u32 where "UARTDIV1 = GENMASK 20 16"
definition MMCCKDIV :: u32 where "MMCCKDIV = GENMASK 15 11"

definition APB2CKDIV :: u32 where "APB2CKDIV = GENMASK 27 26"
definition APB5CKDIV :: u32 where "APB5CKDIV = GENMASK 23 22"
definition UARTDIV2 :: u32 where "UARTDIV2 = GENMASK 15 11"

definition FIXED_SRC :: u32 where "FIXED_SRC = BIT 0"
definition DIV_TYPE1 :: u32 where "DIV_TYPE1 = BIT 1"
definition DIV_TYPE2 :: u32 where "DIV_TYPE2 = BIT 2"
definition PRE_DIV2 :: u32 where "PRE_DIV2 = BIT 3"
definition POST_DIV2 :: u32 where "POST_DIV2 = BIT 4"

definition REFCLK_25M :: ulong where "REFCLK_25M = 25000000"

text \<open>\<open>NONE\<close> is \<open>(-1)\<close>: all ones in a \<open>u32\<close> field of the table.\<close>

definition NONE :: u32 where "NONE = - 1"

subsection \<open>Clock identifiers\<close>

text \<open>
  Modelled from the spec: the header dt-bindings/clock/npcm845-clock.h, which gives the
  identifiers \<open>CLK_REFCLK\<close> ... \<open>CLK_SDHC\<close> and \<open>CLK_COUNT\<close> their numbers, is not part
  of the sources at hand. The spec calls \<open>id\<close> a unique identifier (enum/int) and has
  \<open>request\<close> validate that an id is within the known range. The eleven identifiers the
  driver names are therefore distinct constructors, all below \<open>CLK_COUNT\<close>;
  \<open>CLK_UNLISTED n\<close> stands for any other identifier below \<open>CLK_COUNT\<close>, and
  \<open>CLK_INVALID v\<close> for a value that is no identifier: the integer \<open>v\<close> is negative
  (\<open>NONE\<close>, \<open>-EINVAL\<close>) or at least \<open>CLK_COUNT\<close>, so that as an unsigned \<open>id\<close> it is
  not below \<open>CLK_COUNT\<close>.
\<close>

datatype clk_id =
    CLK_REFCLK | CLK_PLL0 | CLK_PLL1 | CLK_PLL2 | CLK_PLL2DIV2
  | CLK_AHB | CLK_APB2 | CLK_APB5 | CLK_UART1 | CLK_UART2 | CLK_SDHC
  | CLK_UNLISTED nat
  | CLK_INVALID int

record npcm_clk =
  id_c :: clk_id
  parent_id :: clk_id
  reg_clkdiv :: u8
  div_mask :: u32
  sel_mask :: u32
  sel_val :: u32
  flags :: u32

record npcm_clk_map =
  clkid :: clk_id
  clksel :: u8

definition mk_map :: "clk_id \<Rightarrow> u8 \<Rightarrow> npcm_clk_map" where
  "mk_map c s = \<lparr>clkid = c, clksel = s\<rparr>"

definition npcm8xx_cpu_clksel_map :: "npcm_clk_map list" where
  "npcm8xx_cpu_clksel_map =
    [mk_map CLK_PLL0 CPUCKSEL_PLL0,
     mk_map CLK_PLL1 CPUCKSEL_PLL1,
     mk_map CLK_PLL2 CPUCKSEL_PLL2]"

definition npcm8xx_clksel_map :: "npcm_clk_map list" where
  "npcm8xx_clksel_map =
    [mk_map CLK_PLL0 CKSEL_PLL0,
     mk_map CLK_PLL1 CKSEL_PLL1,
     mk_map CLK_PLL2DIV2 CKSEL_PLL2]"

definition mk_clk ::
  "clk_id \<Rightarrow> clk_id \<Rightarrow> u8 \<Rightarrow> u32 \<Rightarrow> u32 \<Rightarrow> u32 \<Rightarrow> u32 \<Rightarrow> npcm_clk" where
  "mk_clk i p r dm sm sv f =
    \<lparr>id_c = i, parent_id = p, reg_clkdiv = r, div_mask = dm, sel_mask = sm,
     sel_val = sv, flags = f\<rparr>"

text \<open>The clock table; \<open>Fout = ((Fin / PRE_DIV2) / div) / POST_DIV2\<close>.\<close>

definition npcm8xx_clks :: "npcm_clk list" where
  "npcm8xx_clks =
    [mk_clk CLK_PLL0 CLK_REFCLK PLLCON0 NONE NONE NONE FIXED_SRC,
     mk_clk CLK_PLL1 CLK_REFCLK PLLCON1 NONE NONE NONE FIXED_SRC,
     mk_clk CLK_PLL2 CLK_REFCLK PLLCON2 NONE NONE NONE FIXED_SRC,
     mk_clk CLK_PLL2DIV2 CLK_REFCLK PLLCON2 NONE NONE NONE (FIXED_SRC OR POST_DIV2),
     mk_clk CLK_AHB (CLK_INVALID (- 1)) CLKDIV1 CLK4DIV CPUCKSEL NONE (DIV_TYPE1 OR PRE_DIV2),
     mk_clk CLK_APB2 CLK_AHB CLKDIV2 APB2CKDIV NONE NONE (FIXED_SRC OR DIV_TYPE2),
     mk_clk CLK_APB5 CLK_AHB CLKDIV2 APB5CKDIV NONE NONE (FIXED_SRC OR DIV_TYPE2),
     mk_clk CLK_UART1 CLK_PLL2DIV2 CLKDIV1 UARTDIV1 UARTCKSEL (ucast CKSEL_PLL2) DIV_TYPE1,
     mk_clk CLK_UART2 CLK_PLL2DIV2 CLKDIV3 UARTDIV2 UARTCKSEL (ucast CKSEL_PLL2) DIV_TYPE1,
     mk_clk CLK_SDHC CLK_PLL0 CLKDIV1 MMCCKDIV SDCKSEL (ucast CKSEL_PLL0) DIV_TYPE1]"

subsection \<open>The register file and the outcome of a call\<close>

text \<open>
  Modelled from the spec: the register accessor (\<open>readl\<close>, \<open>writel\<close> of asm/io.h) is an
  external collaborator with the contract \<open>read(offset) -> word\<close>,
  \<open>write(offset, word)\<close>. The register file maps the byte offset from \<open>priv->regs\<close> to
  the 32-bit word stored there.
\<close>

type_synonym regs = "nat \<Rightarrow> u32"

definition readl :: "regs \<Rightarrow> nat \<Rightarrow> u32" where
  "readl s off = s off"

definition writel :: "u32 \<Rightarrow> nat \<Rightarrow> regs \<Rightarrow> regs" where
  "writel v off s = s(off := v)"

text \<open>
  A call either returns a value together with the register file it leaves behind
  (\<open>Inr\<close>), or it has no defined result (\<open>Inl\<close>): the C program divides by zero or
  shifts by an amount out of range, which is undefined behaviour and no error that is
  returned to the caller; or the bound on the nesting of rate queries is used up.
  The error codes the driver does return (\<open>0\<close>, \<open>-ENOSYS\<close>) are values of type \<open>ulong\<close>,
  as in the source.
\<close>

datatype abort = UB_Divide_By_Zero | UB_Shift_Out_Of_Range | Nesting_Exhausted

type_synonym 'a outcome = "abort + 'a \<times> regs"

subsection \<open>Selector map and table lookup\<close>

text \<open>
  \<open>clksel_to_clkid\<close> returns an \<open>int\<close>: the identifier found, or \<open>-EINVAL\<close>, which is no
  identifier.
\<close>

definition clksel_to_clkid :: "u8 \<Rightarrow> u32 \<Rightarrow> clk_id" where
  "clksel_to_clkid sel m =
    (let map = (if m = CPUCKSEL then npcm8xx_cpu_clksel_map else npcm8xx_clksel_map)
     in case find (\<lambda>e. clksel e = sel) map of
          Some e \<Rightarrow> clkid e
        | None \<Rightarrow> CLK_INVALID (- EINVAL))"

definition npcm_clk_get :: "clk_id \<Rightarrow> npcm_clk option" where
  "npcm_clk_get clk_id = find (\<lambda>c. id_c c = clk_id) npcm8xx_clks"

text \<open>\<open>npcm_clk_request\<close>: \<open>-EINVAL\<close> when \<open>id >= CLK_COUNT\<close>, else 0.\<close>

definition npcm_clk_request :: "clk_id \<Rightarrow> int" where
  "npcm_clk_request i = (case i of CLK_INVALID v \<Rightarrow> - EINVAL | _ \<Rightarrow> 0)"

text \<open>
  Modelled from the spec: the clock framework (clk-uclass.c) is not part of the sources
  at hand. \<open>clk_request\<close> validates the id through the driver's \<open>request\<close> operation.
\<close>

definition clk_request :: "clk_id \<Rightarrow> int" where
  "clk_request i = npcm_clk_request i"

subsection \<open>Rate resolution\<close>

text \<open>
  The framework's \<open>clk_get_rate\<close> is a call through the driver's operations table; the
  functions below take it as the parameter \<open>cgr\<close>.
\<close>

definition npcm_clk_get_fin ::
  "(clk_id \<Rightarrow> regs \<Rightarrow> ulong outcome) \<Rightarrow> npcm_clk \<Rightarrow> regs \<Rightarrow> ulong outcome" where
  "npcm_clk_get_fin cgr clk s =
    (case (if flags clk AND FIXED_SRC \<noteq> 0 then Inr (parent_id clk)
           else if sel_mask clk = 0 then Inl UB_Shift_Out_Of_Range
           else
             let val = readl s CLKSEL;
                 sel = drop_bit (ffs (sel_mask clk) - 1) (val AND sel_mask clk)
             in Inr (clksel_to_clkid (ucast sel) (sel_mask clk)))
     of Inl e \<Rightarrow> Inl e
      | Inr parent \<Rightarrow>
          if clk_request parent \<noteq> 0 then Inr (0, s)
          else cgr parent s)"

definition npcm_clk_get_fout ::
  "(clk_id \<Rightarrow> regs \<Rightarrow> ulong outcome) \<Rightarrow> clk_id \<Rightarrow> regs \<Rightarrow> ulong outcome" where
  "npcm_clk_get_fout cgr i s =
    (case npcm_clk_get i of
       None \<Rightarrow> Inr (0, s)
     | Some clk \<Rightarrow>
        (case npcm_clk_get_fin cgr clk s of
           Inl e \<Rightarrow> Inl e
         | Inr (parent_rate, s1) \<Rightarrow>
            if div_mask clk = 0 then Inl UB_Shift_Out_Of_Range
            else
              let val = readl s1 (unat (reg_clkdiv clk));
                  clkdiv = drop_bit (ffs (div_mask clk) - 1) (val AND div_mask clk)
              in if flags clk AND DIV_TYPE1 = 0 \<and> 31 \<le> unat clkdiv
                 then Inl UB_Shift_Out_Of_Range
                 else
                   let dv = (if flags clk AND DIV_TYPE1 \<noteq> 0 then clkdiv + 1
                             else push_bit (unat clkdiv) 1);
                       dv = (if flags clk AND PRE_DIV2 \<noteq> 0 then dv * 2 else dv)
                   in if dv = 0 then Inl UB_Divide_By_Zero
                      else Inr (parent_rate div ucast dv, s1)))"

text \<open>
  \<open>do_div(n, base)\<close> (div64.h, not part of the sources at hand) divides the 64-bit \<open>n\<close>
  in place by \<open>base\<close>, which it takes as a 32-bit value; it is written out below.
\<close>

definition npcm_clk_get_pll_rate ::
  "(clk_id \<Rightarrow> regs \<Rightarrow> ulong outcome) \<Rightarrow> clk_id \<Rightarrow> regs \<Rightarrow> ulong outcome" where
  "npcm_clk_get_pll_rate cgr i s =
    (case npcm_clk_get i of
       None \<Rightarrow> Inr (0, s)
     | Some clk \<Rightarrow>
        (case npcm_clk_get_fin cgr clk s of
           Inl e \<Rightarrow> Inl e
         | Inr (parent_rate, s1) \<Rightarrow>
            let val = readl s1 (unat (reg_clkdiv clk));
                indv = FIELD_GET PLLCON_INDV val;
                fbdv = FIELD_GET PLLCON_FBDV val;
                otdv1 = FIELD_GET PLLCON_OTDV1 val;
                otdv2 = FIELD_GET PLLCON_OTDV2 val;
                ret = parent_rate * fbdv;
                base = (ucast (indv * otdv1 * otdv2) :: u32)
            in if base = 0 then Inl UB_Divide_By_Zero
               else
                 let ret = ret div ucast base;
                     ret = (if flags clk AND POST_DIV2 \<noteq> 0 then ret div 2 else ret)
                 in Inr (ret, s1)))"

definition npcm_clk_get_rate ::
  "(clk_id \<Rightarrow> regs \<Rightarrow> ulong outcome) \<Rightarrow> clk_id \<Rightarrow> regs \<Rightarrow> ulong outcome" where
  "npcm_clk_get_rate cgr i s =
    (case i of
       CLK_REFCLK \<Rightarrow> Inr (REFCLK_25M, s)
     | CLK_PLL0 \<Rightarrow> npcm_clk_get_pll_rate cgr i s
     | CLK_PLL1 \<Rightarrow> npcm_clk_get_pll_rate cgr i s
     | CLK_PLL2 \<Rightarrow> npcm_clk_get_pll_rate cgr i s
     | CLK_PLL2DIV2 \<Rightarrow> npcm_clk_get_pll_rate cgr i s
     | CLK_AHB \<Rightarrow> npcm_clk_get_fout cgr i s
     | CLK_APB2 \<Rightarrow> npcm_clk_get_fout cgr i s
     | CLK_APB5 \<Rightarrow> npcm_clk_get_fout cgr i s
     | _ \<Rightarrow> Inr (word_of_int (- ENOSYS), s))"

text \<open>
  Modelled from the spec: \<open>clk_get_rate\<close> of the clock framework resolves the parent's
  output frequency through the driver's \<open>get_rate\<close> operation, that is
  \<open>npcm_clk_get_rate\<close> again. The first argument bounds how deep such queries may
  nest; a query that would nest deeper has the outcome \<open>Nesting_Exhausted\<close>.
\<close>

fun clk_get_rate :: "nat \<Rightarrow> clk_id \<Rightarrow> regs \<Rightarrow> ulong outcome" where
  "clk_get_rate 0 i s = Inl Nesting_Exhausted"
| "clk_get_rate (Suc n) i s = npcm_clk_get_rate (clk_get_rate n) i s"

subsection \<open>Rate programming\<close>

text \<open>
  Modelled from the spec: \<open>DIV_ROUND_UP(n, d)\<close> is the macro the source computes the
  spec's \<open>ceil\<close> with, \<open>(n + d - 1) / d\<close>, here on \<open>ulong\<close>, where the sum wraps.
\<close>

definition DIV_ROUND_UP :: "ulong \<Rightarrow> ulong \<Rightarrow> ulong" where
  "DIV_ROUND_UP n d = (n + d - 1) div d"

definition npcm_clk_set_fout ::
  "(clk_id \<Rightarrow> regs \<Rightarrow> ulong outcome) \<Rightarrow> clk_id \<Rightarrow> ulong \<Rightarrow> regs \<Rightarrow> ulong outcome" where
  "npcm_clk_set_fout cgr i rate s =
    (case npcm_clk_get i of
       None \<Rightarrow> Inr (0, s)
     | Some clk \<Rightarrow>
        if sel_mask clk = 0 then Inl UB_Shift_Out_Of_Range
        else
          let val = readl s CLKSEL;
              val = val AND NOT (sel_mask clk);
              val = val OR (push_bit (ffs (sel_mask clk) - 1) (sel_val clk) AND sel_mask clk);
              s1 = writel val CLKSEL s
          in (case npcm_clk_get_fin cgr clk s1 of
               Inl e \<Rightarrow> Inl e
             | Inr (parent_rate, s2) \<Rightarrow>
                if rate = 0 then Inl UB_Divide_By_Zero
                else
                  let dv = (ucast (DIV_ROUND_UP parent_rate rate) :: u32);
                      clkdiv = (if flags clk AND DIV_TYPE1 \<noteq> 0 then dv - 1 else ilog2 dv)
                  in if div_mask clk = 0 then Inl UB_Shift_Out_Of_Range
                     else
                       let val = readl s2 (unat (reg_clkdiv clk));
                           val = val AND NOT (div_mask clk);
                           val = val OR (push_bit (ffs (div_mask clk) - 1) clkdiv AND div_mask clk);
                           s3 = writel val (unat (reg_clkdiv clk)) s2
                       in if dv = 0 then Inl UB_Divide_By_Zero
                          else Inr (parent_rate div ucast dv, s3)))"

definition npcm_clk_set_rate ::
  "(clk_id \<Rightarrow> regs \<Rightarrow> ulong outcome) \<Rightarrow> clk_id \<Rightarrow> ulong \<Rightarrow> regs \<Rightarrow> ulong outcome" where
  "npcm_clk_set_rate cgr i rate s =
    (case i of
       CLK_SDHC \<Rightarrow> npcm_clk_set_fout cgr i rate s
     | CLK_UART1 \<Rightarrow> npcm_clk_set_fout cgr i rate s
     | CLK_UART2 \<Rightarrow> npcm_clk_set_fout cgr i rate s
     | _ \<Rightarrow> Inr (word_of_int (- ENOSYS), s))"

subsection \<open>Closed form of a PLL's rate\<close>

text \<open>
  The rate of a PLL as a function of its flags and of the contents of its control
  register, with the reference clock as input. \<open>clk_get_rate_pll\<close> below proves that
  the driver computes it.
\<close>

definition pll_out :: "u32 \<Rightarrow> u32 \<Rightarrow> abort + ulong" where
  "pll_out fl val =
    (let indv = (ucast (take_bit 6 val) :: ulong);
         fbdv = (ucast (take_bit 12 (drop_bit 16 val)) :: ulong);
         otdv1 = (ucast (take_bit 3 (drop_bit 8 val)) :: ulong);
         otdv2 = (ucast (take_bit 3 (drop_bit 13 val)) :: ulong);
         base = (ucast (indv * otdv1 * otdv2) :: u32)
     in if base = 0 then Inl UB_Divide_By_Zero
        else Inr (if fl AND POST_DIV2 \<noteq> 0 then REFCLK_25M * fbdv div ucast base div 2
                  else REFCLK_25M * fbdv div ucast base))"

subsection \<open>The field codec and the ceiling of a quotient\<close>

text \<open>
  The specification's field codec: \<open>insert(registerWord, mask, value)\<close> clears the
  masked bits and ORs in \<open>(value << shift) & mask\<close>, the shift being the index of the
  mask's lowest set bit. The driver writes this expression out at each use;
  \<open>set_fout_expand\<close> and \<open>set_fout_settable\<close> below relate the two.
\<close>

definition field_insert :: "u32 \<Rightarrow> u32 \<Rightarrow> u32 \<Rightarrow> u32" where
  "field_insert m v x = (x AND NOT m) OR (push_bit (ffs m - 1) v AND m)"

text \<open>
  The ceiling of \<open>a / b\<close> on natural numbers, as the specification's \<open>ceil\<close>;
  \<open>ceil_div_least\<close> proves it the least \<open>d\<close> with \<open>a \<le> d * b\<close>, and
  \<open>DIV_ROUND_UP_unat\<close> relates it to the driver's \<open>DIV_ROUND_UP\<close>.
\<close>

definition ceil_div :: "nat \<Rightarrow> nat \<Rightarrow> nat" where
  "ceil_div a b = (if b dvd a then a div b else a div b + 1)"

section \<open>Basic facts\<close>

subsection \<open>Masks, fields and words\<close>

lemma flag_vals:
  "FIXED_SRC = 1" "DIV_TYPE1 = 2" "DIV_TYPE2 = 4" "PRE_DIV2 = 8" "POST_DIV2 = 16"
  by (simp_all add: FIXED_SRC_def DIV_TYPE1_def DIV_TYPE2_def PRE_DIV2_def POST_DIV2_def BIT_def)

lemma ffs_GENMASK: 
  assumes "l \<le> h" "h < 32" shows "ffs (GENMASK h l) = Suc l"
proof -
  have "find (bit (GENMASK h l)) [0..<32] = Some l"
    unfolding find_Some_iff using assms
    by (intro exI[of _ l]) (auto simp add: GENMASK_def bit_simps)
  then show ?thesis by (simp add: ffs_def)
qed

lemma GENMASK_nonzero: 
  assumes "l \<le> h" "h < 32" shows "GENMASK h l \<noteq> 0"
proof
  assume "GENMASK h l = 0"
  then have "\<not> bit (GENMASK h l) l" by simp
  with assms show False by (simp add: GENMASK_def bit_simps)
qed

lemma extract_GENMASK:
  "l \<le> h \<Longrightarrow> h < 32 \<Longrightarrow> drop_bit l (v AND GENMASK h l) = take_bit (Suc h - l) (drop_bit l v)"
  by (rule bit_word_eqI) (auto simp add: GENMASK_def bit_simps)

lemma FIELD_GET_GENMASK:
  assumes "l \<le> h" "h < 32"
  shows "FIELD_GET (GENMASK h l) v = ucast (take_bit (Suc h - l) (drop_bit l v))"
  unfolding FIELD_GET_def using assms by (simp only: ffs_GENMASK extract_GENMASK diff_Suc_1)

lemma unat_ucast_u32_ulong: "unat (ucast (w :: u32) :: ulong) = unat w"
proof -
  have "unat w < 2 ^ 32" using unsigned_less [of w] by simp
  then have "unat w < 2 ^ 64" by simp
  then show ?thesis by (simp add: unsigned_ucast_eq take_bit_nat_eq_self)
qed

lemma unat_take_bit_less: "unat (take_bit k (w :: u32)) < 2 ^ k"
  by (simp add: unsigned_take_bit_eq)


lemma clk_simps [simp]:
  "id_c (mk_clk i p r dm sm sv f) = i"
  "parent_id (mk_clk i p r dm sm sv f) = p"
  "reg_clkdiv (mk_clk i p r dm sm sv f) = r"
  "div_mask (mk_clk i p r dm sm sv f) = dm"
  "sel_mask (mk_clk i p r dm sm sv f) = sm"
  "sel_val (mk_clk i p r dm sm sv f) = sv"
  "flags (mk_clk i p r dm sm sv f) = f"
  by (simp_all add: mk_clk_def)

lemma npcm_clk_get_simps:
  "npcm_clk_get CLK_PLL0 = Some (mk_clk CLK_PLL0 CLK_REFCLK PLLCON0 NONE NONE NONE FIXED_SRC)"
  "npcm_clk_get CLK_PLL1 = Some (mk_clk CLK_PLL1 CLK_REFCLK PLLCON1 NONE NONE NONE FIXED_SRC)"
  "npcm_clk_get CLK_PLL2 = Some (mk_clk CLK_PLL2 CLK_REFCLK PLLCON2 NONE NONE NONE FIXED_SRC)"
  "npcm_clk_get CLK_PLL2DIV2 =
     Some (mk_clk CLK_PLL2DIV2 CLK_REFCLK PLLCON2 NONE NONE NONE (FIXED_SRC OR POST_DIV2))"
  "npcm_clk_get CLK_AHB =
     Some (mk_clk CLK_AHB (CLK_INVALID (- 1)) CLKDIV1 CLK4DIV CPUCKSEL NONE (DIV_TYPE1 OR PRE_DIV2))"
  "npcm_clk_get CLK_APB2 =
     Some (mk_clk CLK_APB2 CLK_AHB CLKDIV2 APB2CKDIV NONE NONE (FIXED_SRC OR DIV_TYPE2))"
  "npcm_clk_get CLK_APB5 =
     Some (mk_clk CLK_APB5 CLK_AHB CLKDIV2 APB5CKDIV NONE NONE (FIXED_SRC OR DIV_TYPE2))"
  "npcm_clk_get CLK_UART1 =
     Some (mk_clk CLK_UART1 CLK_PLL2DIV2 CLKDIV1 UARTDIV1 UARTCKSEL (ucast CKSEL_PLL2) DIV_TYPE1)"
  "npcm_clk_get CLK_UART2 =
     Some (mk_clk CLK_UART2 CLK_PLL2DIV2 CLKDIV3 UARTDIV2 UARTCKSEL (ucast CKSEL_PLL2) DIV_TYPE1)"
  "npcm_clk_get CLK_SDHC =
     Some (mk_clk CLK_SDHC CLK_PLL0 CLKDIV1 MMCCKDIV SDCKSEL (ucast CKSEL_PLL0) DIV_TYPE1)"
  "npcm_clk_get CLK_REFCLK = None"
  "npcm_clk_get (CLK_UNLISTED k) = None"
  "npcm_clk_get (CLK_INVALID v) = None"
  by (simp_all add: npcm_clk_get_def npcm8xx_clks_def)

lemma get_fin_fixed:
  assumes "flags clk AND FIXED_SRC \<noteq> 0" "clk_request (parent_id clk) = 0"
  shows "npcm_clk_get_fin cgr clk s = cgr (parent_id clk) s"
  using assms by (simp add: npcm_clk_get_fin_def)

lemma pll_rate_expand:
  assumes "npcm_clk_get i = Some clk" 
      and "npcm_clk_get_fin cgr clk s = Inr (fin, s')"
  shows "npcm_clk_get_pll_rate cgr i s =
    (let val = s' (unat (reg_clkdiv clk));
         indv = (ucast (take_bit 6 val) :: ulong);
         fbdv = (ucast (take_bit 12 (drop_bit 16 val)) :: ulong);
         otdv1 = (ucast (take_bit 3 (drop_bit 8 val)) :: ulong);
         otdv2 = (ucast (take_bit 3 (drop_bit 13 val)) :: ulong);
         base = (ucast (indv * otdv1 * otdv2) :: u32)
     in if base = 0 then Inl UB_Divide_By_Zero
        else Inr ((if flags clk AND POST_DIV2 \<noteq> 0 then fin * fbdv div ucast base div 2
                   else fin * fbdv div ucast base), s'))"
  using assms
  by (simp add: npcm_clk_get_pll_rate_def readl_def Let_def PLLCON_INDV_def PLLCON_FBDV_def
      PLLCON_OTDV1_def PLLCON_OTDV2_def FIELD_GET_GENMASK)


lemma pll_base_unat:
  fixes val :: u32
  defines "indv \<equiv> (ucast (take_bit 6 val) :: ulong)"
      and "otdv1 \<equiv> (ucast (take_bit 3 (drop_bit 8 val)) :: ulong)"
      and "otdv2 \<equiv> (ucast (take_bit 3 (drop_bit 13 val)) :: ulong)"
  shows "unat (ucast (ucast (indv * otdv1 * otdv2) :: u32) :: ulong) =
         unat (take_bit 6 val) * unat (take_bit 3 (drop_bit 8 val))
           * unat (take_bit 3 (drop_bit 13 val))"
proof -
  let ?a = "unat (take_bit 6 val)"
  let ?b = "unat (take_bit 3 (drop_bit 8 val))"
  let ?c = "unat (take_bit 3 (drop_bit 13 val))"
  have a: "?a < 2 ^ 6" and b: "?b < 2 ^ 3" and c: "?c < 2 ^ 3"
    by (rule unat_take_bit_less)+
  have "?a * ?b \<le> 63 * 7"
    using a b by (intro mult_le_mono) simp_all
  moreover have "?c \<le> 7" using c by simp
  ultimately have "?a * ?b * ?c \<le> (63 * 7) * 7"
    by (rule mult_le_mono)
  then have lt: "?a * ?b * ?c < 4096" by simp
  have lt2: "?a * ?b < 4096" using \<open>?a * ?b \<le> 63 * 7\<close> by simp
  have "unat (indv * otdv1 * otdv2) = ?a * ?b * ?c"
    using lt lt2 by (simp add: unat_word_ariths indv_def otdv1_def otdv2_def unat_ucast_u32_ulong)
  moreover have "unat (ucast (indv * otdv1 * otdv2) :: u32) = unat (indv * otdv1 * otdv2)"
    using lt calculation by (simp add: unsigned_ucast_eq take_bit_nat_eq_self)
  ultimately show ?thesis by (simp add: unat_ucast_u32_ulong)
qed

lemma pll_prod_unat:
  fixes val :: u32 and fin :: ulong
  assumes "unat fin < 2 ^ 52"
  shows "unat (fin * ucast (take_bit 12 (drop_bit 16 val))) =
         unat fin * unat (take_bit 12 (drop_bit 16 val))"
proof -
  let ?f = "unat (take_bit 12 (drop_bit 16 val))"
  have f: "?f < 2 ^ 12" by (rule unat_take_bit_less)
  have "unat fin * ?f < 2 ^ 52 * 2 ^ 12"
    using assms f by (intro mult_strict_mono) simp_all
  then show ?thesis
    by (simp add: unat_word_ariths unat_ucast_u32_ulong)
qed

lemma REFCLK_rate: "clk_get_rate (Suc n) CLK_REFCLK s = Inr (REFCLK_25M, s)"
  by (simp add: npcm_clk_get_rate_def)

lemma request_ok [simp]:
  "clk_request CLK_REFCLK = 0" "clk_request CLK_PLL0 = 0" "clk_request CLK_PLL1 = 0"
  "clk_request CLK_PLL2 = 0" "clk_request CLK_PLL2DIV2 = 0" "clk_request CLK_AHB = 0"
  "clk_request (CLK_INVALID v) \<noteq> 0"
  by (simp_all add: clk_request_def npcm_clk_request_def EINVAL_def)

lemma unat_ucast_ulong_u32: "unat (w :: ulong) < 2 ^ 32 \<Longrightarrow> unat (ucast w :: u32) = unat w"
  by (simp add: unsigned_ucast_eq take_bit_nat_eq_self)

lemma fout_expand:
  assumes "npcm_clk_get i = Some clk"
      and "npcm_clk_get_fin cgr clk s = Inr (fin, s')"
      and "div_mask clk = GENMASK h l" "l \<le> h" "h < 32"
  shows "npcm_clk_get_fout cgr i s =
    (let clkdiv = take_bit (Suc h - l) (drop_bit l (s' (unat (reg_clkdiv clk))))
     in if flags clk AND DIV_TYPE1 = 0 \<and> 31 \<le> unat clkdiv then Inl UB_Shift_Out_Of_Range
        else
          let dv = (if flags clk AND DIV_TYPE1 \<noteq> 0 then clkdiv + 1
                    else push_bit (unat clkdiv) 1);
              dv = (if flags clk AND PRE_DIV2 \<noteq> 0 then dv * 2 else dv)
          in if dv = 0 then Inl UB_Divide_By_Zero
             else Inr (fin div ucast dv, s'))"
  using assms
  by (simp add: npcm_clk_get_fout_def readl_def GENMASK_nonzero ffs_GENMASK extract_GENMASK
      del: drop_bit_and)

lemma type1_divisor:
  fixes c :: u32
  assumes "unat c < 32"
  shows "unat (ucast (c + 1) :: ulong) = unat c + 1"
    and "unat (ucast ((c + 1) * 2) :: ulong) = (unat c + 1) * 2"
  using assms by (simp_all add: unat_ucast_u32_ulong unat_word_ariths)

lemma type2_divisor:
  fixes c :: u32
  assumes "unat c < 4"
  shows "unat (ucast (push_bit (unat c) 1 :: u32) :: ulong) = 2 ^ unat c"
    and "unat (ucast ((push_bit (unat c) 1 :: u32) * 2) :: ulong) = 2 ^ unat c * 2"
proof -
  from assms consider "unat c = 0" | "unat c = 1" | "unat c = 2" | "unat c = 3" by linarith
  then have "unat (push_bit (unat c) 1 :: u32) = 2 ^ unat c"
    by cases simp_all
  moreover have "(2::nat) ^ unat c \<le> 2 ^ 3"
    using assms by (intro power_increasing) simp_all
  ultimately show "unat (ucast (push_bit (unat c) 1 :: u32) :: ulong) = 2 ^ unat c"
    and "unat (ucast ((push_bit (unat c) 1 :: u32) * 2) :: ulong) = 2 ^ unat c * 2"
    by (simp_all add: unat_ucast_u32_ulong unat_word_ariths)
qed

lemma fout_generic:
  assumes get: "npcm_clk_get i = Some clk"
      and fin: "npcm_clk_get_fin cgr clk s = Inr (fin, s')"
      and dm: "div_mask clk = GENMASK h l" "l \<le> h" "h < 32"
      and width: "if flags clk AND DIV_TYPE1 \<noteq> 0 then Suc h - l \<le> 5 else Suc h - l \<le> 2"
      and field: "field = unat (take_bit (Suc h - l) (drop_bit l (s' (unat (reg_clkdiv clk)))))"
  shows "\<exists>r. npcm_clk_get_fout cgr i s = Inr (r, s') \<and>
          unat r = unat fin div ((if flags clk AND DIV_TYPE1 \<noteq> 0 then field + 1 else 2 ^ field)
                                  * (if flags clk AND PRE_DIV2 \<noteq> 0 then 2 else 1))"
proof (cases "flags clk AND DIV_TYPE1 \<noteq> 0")
  case True
  let ?c = "take_bit (Suc h - l) (drop_bit l (s' (unat (reg_clkdiv clk))))"
  have "unat ?c < 2 ^ (Suc h - l)" by (rule unat_take_bit_less)
  also have "\<dots> \<le> 2 ^ 5" using width True by (intro power_increasing) simp_all
  finally have c: "unat ?c < 32" by simp
  note d = type1_divisor [OF c]
  have nz: "?c + 1 \<noteq> 0" "(?c + 1) * 2 \<noteq> 0"
    using d by (metis unat_ucast_u32_ulong unat_eq_zero add_is_0 mult_is_0 zero_neq_one
        zero_neq_numeral)+
  show ?thesis
    using True nz d
    by (simp add: fout_expand [OF get fin dm] Let_def unat_div field)
next
  case False
  let ?c = "take_bit (Suc h - l) (drop_bit l (s' (unat (reg_clkdiv clk))))"
  have "unat ?c < 2 ^ (Suc h - l)" by (rule unat_take_bit_less)
  also have "\<dots> \<le> 2 ^ 2" using width False by (intro power_increasing) simp_all
  finally have c: "unat ?c < 4" by simp
  note d = type2_divisor [OF c]
  have nz: "push_bit (unat ?c) (1::u32) \<noteq> 0" "push_bit (unat ?c) (1::u32) * 2 \<noteq> 0"
    using d by (metis unat_ucast_u32_ulong unat_eq_zero power_eq_0_iff mult_is_0
        zero_neq_numeral)+
  show ?thesis
    using False nz d c
    by (simp add: fout_expand [OF get fin dm] Let_def unat_div field)
qed

lemma get_fin_sel:
  assumes "flags clk AND FIXED_SRC = 0" "sel_mask clk = GENMASK h l" "l \<le> h" "h < 32"
  shows "npcm_clk_get_fin cgr clk s =
    (let parent = clksel_to_clkid (ucast (take_bit (Suc h - l) (drop_bit l (s CLKSEL))))
                    (GENMASK h l)
     in if clk_request parent \<noteq> 0 then Inr (0, s) else cgr parent s)"
  using assms
  by (simp add: npcm_clk_get_fin_def readl_def GENMASK_nonzero ffs_GENMASK extract_GENMASK
      del: drop_bit_and)

lemma get_fin_preserves:
  assumes "\<And>p t r t'. cgr p t = Inr (r, t') \<Longrightarrow> t' = t"
      and "npcm_clk_get_fin cgr clk s = Inr (r, s')"
  shows "s' = s"
  using assms
  by (auto simp add: npcm_clk_get_fin_def Let_def split: if_splits sum.splits)

lemma get_fout_preserves:
  assumes "\<And>p t r t'. cgr p t = Inr (r, t') \<Longrightarrow> t' = t"
      and "npcm_clk_get_fout cgr i s = Inr (r, s')"
  shows "s' = s"
  using assms(2) get_fin_preserves [of cgr, OF assms(1)]
  by (auto simp add: npcm_clk_get_fout_def Let_def split: if_splits sum.splits option.splits)

lemma get_pll_rate_preserves:
  assumes "\<And>p t r t'. cgr p t = Inr (r, t') \<Longrightarrow> t' = t"
      and "npcm_clk_get_pll_rate cgr i s = Inr (r, s')"
  shows "s' = s"
  using assms(2) get_fin_preserves [of cgr, OF assms(1)]
  by (auto simp add: npcm_clk_get_pll_rate_def Let_def split: if_splits sum.splits option.splits)

lemma get_rate_preserves:
  assumes "\<And>p t r t'. cgr p t = Inr (r, t') \<Longrightarrow> t' = t"
      and "npcm_clk_get_rate cgr i s = Inr (r, s')"
  shows "s' = s"
  using assms(2) get_fout_preserves [of cgr, OF assms(1)]
    get_pll_rate_preserves [of cgr, OF assms(1)]
  by (cases i) (auto simp add: npcm_clk_get_rate_def)

lemma clk_get_rate_preserves: "clk_get_rate n i s = Inr (r, s') \<Longrightarrow> s' = s"
proof (induction n arbitrary: i s r s')
  case 0
  then show ?case by simp
next
  case (Suc n)
  from Suc.prems have "npcm_clk_get_rate (clk_get_rate n) i s = Inr (r, s')" by simp
  then show ?case
    by (rule get_rate_preserves [rotated]) (rule Suc.IH)
qed

lemma set_fout_expand:
  assumes "npcm_clk_get i = Some clk"
      and "sel_mask clk = GENMASK hs ls" "ls \<le> hs" "hs < 32"
      and "div_mask clk = GENMASK h l" "l \<le> h" "h < 32"
      and "flags clk AND DIV_TYPE1 \<noteq> 0"
  shows "npcm_clk_set_fout cgr i rate s =
    (case npcm_clk_get_fin cgr clk
            (s(CLKSEL := (s CLKSEL AND NOT (GENMASK hs ls))
                 OR (push_bit ls (sel_val clk) AND GENMASK hs ls))) of
       Inl e \<Rightarrow> Inl e
     | Inr (parent_rate, s2) \<Rightarrow>
         if rate = 0 then Inl UB_Divide_By_Zero
         else if (ucast (DIV_ROUND_UP parent_rate rate) :: u32) = 0 then Inl UB_Divide_By_Zero
         else Inr (parent_rate div ucast (ucast (DIV_ROUND_UP parent_rate rate) :: u32),
                   s2(unat (reg_clkdiv clk) :=
                       (s2 (unat (reg_clkdiv clk)) AND NOT (GENMASK h l))
                       OR (push_bit l (ucast (DIV_ROUND_UP parent_rate rate) - 1)
                           AND GENMASK h l))))"
  using assms
  by (simp add: npcm_clk_set_fout_def readl_def writel_def GENMASK_nonzero ffs_GENMASK Let_def
      split: sum.splits)

lemma generic_node_shape:
  assumes "i \<in> {CLK_AHB, CLK_APB2, CLK_APB5, CLK_UART1, CLK_UART2, CLK_SDHC}"
      and "npcm_clk_get i = Some clk"
  shows "\<exists>h l. div_mask clk = GENMASK h l \<and> l \<le> h \<and> h < 32 \<and>
           (if flags clk AND DIV_TYPE1 \<noteq> 0 then Suc h - l \<le> 5 else Suc h - l \<le> 2) \<and>
           ((flags clk AND DIV_TYPE1 \<noteq> 0) \<noteq> (flags clk AND DIV_TYPE2 \<noteq> 0))"
proof -
  from assms(1) consider "i = CLK_AHB" | "i = CLK_APB2" | "i = CLK_APB5"
    | "i = CLK_UART1" | "i = CLK_UART2" | "i = CLK_SDHC" by auto
  then show ?thesis
  proof cases
    case 1
    with assms(2) show ?thesis
      by (intro exI [of _ 27] exI [of _ 26]) (auto simp add: npcm_clk_get_simps CLK4DIV_def flag_vals)
  next
    case 2
    with assms(2) show ?thesis
      by (intro exI [of _ 27] exI [of _ 26]) (auto simp add: npcm_clk_get_simps APB2CKDIV_def flag_vals)
  next
    case 3
    with assms(2) show ?thesis
      by (intro exI [of _ 23] exI [of _ 22]) (auto simp add: npcm_clk_get_simps APB5CKDIV_def flag_vals)
  next
    case 4
    with assms(2) show ?thesis
      by (intro exI [of _ 20] exI [of _ 16]) (auto simp add: npcm_clk_get_simps UARTDIV1_def flag_vals)
  next
    case 5
    with assms(2) show ?thesis
      by (intro exI [of _ 15] exI [of _ 11]) (auto simp add: npcm_clk_get_simps UARTDIV2_def flag_vals)
  next
    case 6
    with assms(2) show ?thesis
      by (intro exI [of _ 15] exI [of _ 11]) (auto simp add: npcm_clk_get_simps MMCCKDIV_def flag_vals)
  qed
qed

lemma fuel_numerals:
  "clk_get_rate 2 = clk_get_rate (Suc (Suc 0))"
  "clk_get_rate 3 = clk_get_rate (Suc (Suc (Suc 0)))"
  "clk_get_rate 4 = clk_get_rate (Suc (Suc (Suc (Suc 0))))"
  by (simp_all add: eval_nat_numeral del: clk_get_rate.simps)

lemma clk_get_rate_pll:
  assumes pll: "p \<in> {CLK_PLL0, CLK_PLL1, CLK_PLL2, CLK_PLL2DIV2}"
      and clk: "npcm_clk_get p = Some c"
  shows "clk_get_rate (Suc (Suc n)) p s =
          (case pll_out (flags c) (s (unat (reg_clkdiv c))) of
             Inl e \<Rightarrow> Inl e | Inr r \<Rightarrow> Inr (r, s))"
proof -
  have fx: "flags c AND FIXED_SRC \<noteq> 0" and par: "parent_id c = CLK_REFCLK"
    using pll clk by (auto simp add: npcm_clk_get_simps flag_vals)
  have fin: "npcm_clk_get_fin (clk_get_rate (Suc n)) c s = Inr (REFCLK_25M, s)"
    using fx par by (simp add: get_fin_fixed REFCLK_rate del: clk_get_rate.simps)
  have "clk_get_rate (Suc (Suc n)) p s = npcm_clk_get_pll_rate (clk_get_rate (Suc n)) p s"
    using pll by (auto simp add: npcm_clk_get_rate_def)
  then show ?thesis
    by (simp add: pll_rate_expand [OF clk fin] pll_out_def Let_def del: clk_get_rate.simps)
qed

subsection \<open>Nesting of rate queries\<close>

lemma clksel_to_clkid_range:
  "clksel_to_clkid sel m \<in> {CLK_PLL0, CLK_PLL1, CLK_PLL2, CLK_PLL2DIV2, CLK_INVALID (- EINVAL)}"
  by (simp add: clksel_to_clkid_def npcm8xx_cpu_clksel_map_def npcm8xx_clksel_map_def mk_map_def)

lemma get_fin_exhausted:
  assumes "npcm_clk_get_fin cgr clk s = Inl Nesting_Exhausted"
  shows "\<exists>p. cgr p s = Inl Nesting_Exhausted \<and>
           (if flags clk AND FIXED_SRC \<noteq> 0 then p = parent_id clk
            else p \<in> {CLK_PLL0, CLK_PLL1, CLK_PLL2, CLK_PLL2DIV2})"
proof (cases "flags clk AND FIXED_SRC \<noteq> 0")
  case True
  with assms show ?thesis
    by (auto simp add: npcm_clk_get_fin_def split: if_splits)
next
  case False
  let ?p = "clksel_to_clkid (ucast (drop_bit (ffs (sel_mask clk) - 1)
              (readl s CLKSEL AND sel_mask clk))) (sel_mask clk)"
  from False assms have "cgr ?p s = Inl Nesting_Exhausted" and "clk_request ?p = 0"
    by (auto simp add: npcm_clk_get_fin_def Let_def split: if_splits)
  moreover have "?p \<in> {CLK_PLL0, CLK_PLL1, CLK_PLL2, CLK_PLL2DIV2, CLK_INVALID (- EINVAL)}"
    by (rule clksel_to_clkid_range)
  with \<open>clk_request ?p = 0\<close> have "?p \<in> {CLK_PLL0, CLK_PLL1, CLK_PLL2, CLK_PLL2DIV2}"
    by (cases "?p = CLK_INVALID (- EINVAL)") (simp_all del: drop_bit_and)
  ultimately show ?thesis using False by (auto simp del: drop_bit_and)
qed

lemma get_fout_exhausted:
  assumes "npcm_clk_get_fout cgr i s = Inl Nesting_Exhausted"
  shows "\<exists>clk. npcm_clk_get i = Some clk \<and> npcm_clk_get_fin cgr clk s = Inl Nesting_Exhausted"
  using assms
  by (auto simp add: npcm_clk_get_fout_def Let_def split: option.splits sum.splits if_splits)

lemma pll_not_exhausted:
  assumes "p \<in> {CLK_PLL0, CLK_PLL1, CLK_PLL2, CLK_PLL2DIV2}"
  shows "clk_get_rate (Suc (Suc n)) p s \<noteq> Inl Nesting_Exhausted"
proof -
  from assms obtain c where c: "npcm_clk_get p = Some c"
    by (auto simp add: npcm_clk_get_simps)
  show ?thesis
    unfolding clk_get_rate_pll [OF assms c]
    by (simp add: pll_out_def Let_def split: sum.splits)
qed

lemma ahb_not_exhausted: "clk_get_rate (Suc (Suc (Suc n))) CLK_AHB s \<noteq> Inl Nesting_Exhausted"
proof
  assume "clk_get_rate (Suc (Suc (Suc n))) CLK_AHB s = Inl Nesting_Exhausted"
  then have "npcm_clk_get_fout (clk_get_rate (Suc (Suc n))) CLK_AHB s = Inl Nesting_Exhausted"
    by (simp add: npcm_clk_get_rate_def)
  from get_fout_exhausted [OF this] obtain clk where
    "npcm_clk_get CLK_AHB = Some clk"
    "npcm_clk_get_fin (clk_get_rate (Suc (Suc n))) clk s = Inl Nesting_Exhausted" by blast
  from get_fin_exhausted [OF this(2)] this(1) obtain p where
    "clk_get_rate (Suc (Suc n)) p s = Inl Nesting_Exhausted"
    "p \<in> {CLK_PLL0, CLK_PLL1, CLK_PLL2, CLK_PLL2DIV2}"
    by (auto simp add: npcm_clk_get_simps flag_vals simp del: clk_get_rate.simps)
  with pll_not_exhausted show False by blast
qed

lemma apb_not_exhausted:
  assumes "i \<in> {CLK_APB2, CLK_APB5}"
  shows "clk_get_rate (Suc (Suc (Suc (Suc n)))) i s \<noteq> Inl Nesting_Exhausted"
proof
  assume "clk_get_rate (Suc (Suc (Suc (Suc n)))) i s = Inl Nesting_Exhausted"
  with assms
  have "npcm_clk_get_fout (clk_get_rate (Suc (Suc (Suc n)))) i s = Inl Nesting_Exhausted"
    by (auto simp add: npcm_clk_get_rate_def)
  from get_fout_exhausted [OF this] obtain clk where
    "npcm_clk_get i = Some clk"
    "npcm_clk_get_fin (clk_get_rate (Suc (Suc (Suc n)))) clk s = Inl Nesting_Exhausted" by blast
  from get_fin_exhausted [OF this(2)] this(1) assms
  have "clk_get_rate (Suc (Suc (Suc n))) CLK_AHB s = Inl Nesting_Exhausted"
    by (auto simp add: npcm_clk_get_simps flag_vals simp del: clk_get_rate.simps)
  with ahb_not_exhausted show False by blast
qed


lemma clk_get_rate_returns:
  "clk_get_rate (Suc (Suc (Suc (Suc n)))) i s \<noteq> Inl Nesting_Exhausted"
proof (cases "i \<in> {CLK_APB2, CLK_APB5}")
  case True
  then show ?thesis by (rule apb_not_exhausted)
next
  case False
  show ?thesis
  proof (cases "i \<in> {CLK_PLL0, CLK_PLL1, CLK_PLL2, CLK_PLL2DIV2}")
    case True
    then show ?thesis by (rule pll_not_exhausted)
  next
    case notpll: False
    show ?thesis
    proof (cases "i = CLK_AHB")
      case True
      then show ?thesis using ahb_not_exhausted by blast
    next
      case notahb: False
      with False notpll show ?thesis
        by (cases i) (simp_all add: npcm_clk_get_rate_def)
    qed
  qed
qed

lemma get_fin_stable:
  assumes "\<And>p t. cgr p t \<noteq> Inl Nesting_Exhausted \<Longrightarrow> cgr' p t = cgr p t"
      and "npcm_clk_get_fin cgr clk s \<noteq> Inl Nesting_Exhausted"
  shows "npcm_clk_get_fin cgr' clk s = npcm_clk_get_fin cgr clk s"
  using assms(2) assms(1)
  by (auto simp add: npcm_clk_get_fin_def Let_def split: if_splits simp del: drop_bit_and)

lemma get_fout_stable:
  assumes "\<And>p t. cgr p t \<noteq> Inl Nesting_Exhausted \<Longrightarrow> cgr' p t = cgr p t"
      and "npcm_clk_get_fout cgr i s \<noteq> Inl Nesting_Exhausted"
  shows "npcm_clk_get_fout cgr' i s = npcm_clk_get_fout cgr i s"
proof (cases "npcm_clk_get i")
  case None
  then show ?thesis by (simp add: npcm_clk_get_fout_def)
next
  case (Some clk)
  with assms(2) have "npcm_clk_get_fin cgr clk s \<noteq> Inl Nesting_Exhausted"
    by (auto simp add: npcm_clk_get_fout_def)
  from get_fin_stable [of cgr cgr', OF assms(1) this] Some show ?thesis
    by (simp add: npcm_clk_get_fout_def)
qed

lemma get_pll_rate_stable:
  assumes "\<And>p t. cgr p t \<noteq> Inl Nesting_Exhausted \<Longrightarrow> cgr' p t = cgr p t"
      and "npcm_clk_get_pll_rate cgr i s \<noteq> Inl Nesting_Exhausted"
  shows "npcm_clk_get_pll_rate cgr' i s = npcm_clk_get_pll_rate cgr i s"
proof (cases "npcm_clk_get i")
  case None
  then show ?thesis by (simp add: npcm_clk_get_pll_rate_def)
next
  case (Some clk)
  with assms(2) have "npcm_clk_get_fin cgr clk s \<noteq> Inl Nesting_Exhausted"
    by (auto simp add: npcm_clk_get_pll_rate_def)
  from get_fin_stable [of cgr cgr', OF assms(1) this] Some show ?thesis
    by (simp add: npcm_clk_get_pll_rate_def)
qed

lemma get_rate_stable:
  assumes "\<And>p t. cgr p t \<noteq> Inl Nesting_Exhausted \<Longrightarrow> cgr' p t = cgr p t"
      and "npcm_clk_get_rate cgr i s \<noteq> Inl Nesting_Exhausted"
  shows "npcm_clk_get_rate cgr' i s = npcm_clk_get_rate cgr i s"
  using assms(2) get_fout_stable [of cgr cgr', OF assms(1)]
    get_pll_rate_stable [of cgr cgr', OF assms(1)]
  by (cases i) (simp_all add: npcm_clk_get_rate_def)

lemma clk_get_rate_fuel_Suc:
  "clk_get_rate n i s \<noteq> Inl Nesting_Exhausted \<Longrightarrow> clk_get_rate (Suc n) i s = clk_get_rate n i s"
proof (induction n arbitrary: i s)
  case 0
  then show ?case by simp
next
  case (Suc n)
  from Suc.prems have "npcm_clk_get_rate (clk_get_rate n) i s \<noteq> Inl Nesting_Exhausted"
    by simp
  from get_rate_stable [of "clk_get_rate n" "clk_get_rate (Suc n)", OF Suc.IH this]
  show ?case by simp
qed

lemma clk_get_rate_fuel:
  "clk_get_rate (4 + n) i s = clk_get_rate 4 i s"
proof (induction n)
  case 0
  then show ?case by simp
next
  case (Suc n)
  have e: "4 + n = Suc (Suc (Suc (Suc n)))" by simp
  have "clk_get_rate (4 + n) i s \<noteq> Inl Nesting_Exhausted"
    unfolding e by (rule clk_get_rate_returns)
  from clk_get_rate_fuel_Suc [OF this] Suc.IH show ?case by simp
qed

subsection \<open>Programming a settable node\<close>

lemma insert_extract_GENMASK:
  "l \<le> h \<Longrightarrow> h < 32 \<Longrightarrow>
   take_bit (Suc h - l) (drop_bit l ((x AND NOT (GENMASK h l)) OR (push_bit l v AND GENMASK h l)))
     = take_bit (Suc h - l) v"
  by (rule bit_word_eqI) (auto simp add: GENMASK_def bit_simps)

lemma insert_insert:
  "((((x AND NOT m) OR (a AND m)) AND NOT m) OR (b AND m)) = ((x AND NOT m) OR (b AND m))"
  for x :: u32
  by (rule bit_word_eqI) (auto simp add: bit_simps)

lemma settable_node_shape:
  assumes "i \<in> {CLK_SDHC, CLK_UART1, CLK_UART2}"
      and "npcm_clk_get i = Some clk"
  shows "\<exists>hs ls h l pc. sel_mask clk = GENMASK hs ls \<and> ls \<le> hs \<and> hs < 32 \<and>
           div_mask clk = GENMASK h l \<and> l \<le> h \<and> h < 32 \<and> Suc h - l = 5 \<and>
           flags clk AND DIV_TYPE1 \<noteq> 0 \<and> flags clk AND FIXED_SRC = 0 \<and>
           clksel_to_clkid (ucast (take_bit (Suc hs - ls) (sel_val clk))) (GENMASK hs ls)
             = parent_id clk \<and>
           clksel_to_clkid (ucast (sel_val clk)) (sel_mask clk) = parent_id clk \<and>
           parent_id clk \<in> {CLK_PLL0, CLK_PLL1, CLK_PLL2, CLK_PLL2DIV2} \<and>
           npcm_clk_get (parent_id clk) = Some pc \<and>
           unat (reg_clkdiv clk) \<noteq> CLKSEL \<and>
           unat (reg_clkdiv clk) \<noteq> unat (reg_clkdiv pc)"
proof -
  have sd: "clksel_to_clkid 0 (GENMASK 7 6) = CLK_PLL0"
   and ua: "clksel_to_clkid 3 (GENMASK 9 8) = CLK_PLL2DIV2"
    by (simp_all add: clksel_to_clkid_def npcm8xx_clksel_map_def mk_map_def CKSEL_PLL0_def
        CKSEL_PLL1_def CKSEL_PLL2_def CPUCKSEL_def GENMASK_def mask_eq_exp_minus_1
        push_bit_eq_mult)
  from assms(1) consider "i = CLK_SDHC" | "i = CLK_UART1" | "i = CLK_UART2" by auto
  then show ?thesis
  proof cases
    case 1
    with assms(2)
    have clk: "clk = mk_clk CLK_SDHC CLK_PLL0 CLKDIV1 MMCCKDIV SDCKSEL (ucast CKSEL_PLL0) DIV_TYPE1"
      by (simp add: npcm_clk_get_simps)
    show ?thesis
      unfolding clk
      by (intro exI [of _ 7] exI [of _ 6] exI [of _ 15] exI [of _ 11]
          exI [of _ "mk_clk CLK_PLL0 CLK_REFCLK PLLCON0 NONE NONE NONE FIXED_SRC"])
        (simp add: npcm_clk_get_simps MMCCKDIV_def SDCKSEL_def flag_vals CKSEL_PLL0_def sd
          CLKDIV1_def CLKSEL_def PLLCON0_def)
  next
    case 2
    with assms(2)
    have clk: "clk = mk_clk CLK_UART1 CLK_PLL2DIV2 CLKDIV1 UARTDIV1 UARTCKSEL (ucast CKSEL_PLL2) DIV_TYPE1"
      by (simp add: npcm_clk_get_simps)
    show ?thesis
      unfolding clk
      by (intro exI [of _ 9] exI [of _ 8] exI [of _ 20] exI [of _ 16]
          exI [of _ "mk_clk CLK_PLL2DIV2 CLK_REFCLK PLLCON2 NONE NONE NONE (FIXED_SRC OR POST_DIV2)"])
        (simp add: npcm_clk_get_simps UARTDIV1_def UARTCKSEL_def flag_vals CKSEL_PLL2_def ua
          CLKDIV1_def CLKSEL_def PLLCON2_def)
  next
    case 3
    with assms(2)
    have clk: "clk = mk_clk CLK_UART2 CLK_PLL2DIV2 CLKDIV3 UARTDIV2 UARTCKSEL (ucast CKSEL_PLL2) DIV_TYPE1"
      by (simp add: npcm_clk_get_simps)
    show ?thesis
      unfolding clk
      by (intro exI [of _ 9] exI [of _ 8] exI [of _ 15] exI [of _ 11]
          exI [of _ "mk_clk CLK_PLL2DIV2 CLK_REFCLK PLLCON2 NONE NONE NONE (FIXED_SRC OR POST_DIV2)"])
        (simp add: npcm_clk_get_simps UARTDIV2_def UARTCKSEL_def flag_vals CKSEL_PLL2_def ua
          CLKDIV3_def CLKSEL_def PLLCON2_def)
  qed
qed

lemma get_fin_programmed:
  assumes "flags clk AND FIXED_SRC = 0" "sel_mask clk = GENMASK hs ls" "ls \<le> hs" "hs < 32"
      and "clksel_to_clkid (ucast (take_bit (Suc hs - ls) (sel_val clk))) (GENMASK hs ls)
             = parent_id clk"
      and "clk_request (parent_id clk) = 0"
      and "take_bit (Suc hs - ls) (drop_bit ls (s CLKSEL)) = take_bit (Suc hs - ls) (sel_val clk)"
  shows "npcm_clk_get_fin cgr clk s = cgr (parent_id clk) s"
  using assms by (simp add: get_fin_sel [of clk hs ls])

lemma pll_frame:
  assumes pll: "p \<in> {CLK_PLL0, CLK_PLL1, CLK_PLL2, CLK_PLL2DIV2}"
      and clk: "npcm_clk_get p = Some c"
      and res: "clk_get_rate n p s = Inr (r, s')"
      and same: "t (unat (reg_clkdiv c)) = s (unat (reg_clkdiv c))"
  shows "clk_get_rate n p t = Inr (r, t)"
proof -
  have fx: "flags c AND FIXED_SRC \<noteq> 0" and par: "parent_id c = CLK_REFCLK"
    using pll clk by (auto simp add: npcm_clk_get_simps flag_vals)
  have "n = 0 \<or> n = Suc 0 \<or> (\<exists>m. n = Suc (Suc m))" by arith
  then consider "n = 0" | "n = Suc 0" | m where "n = Suc (Suc m)" by blast
  then show ?thesis
  proof cases
    case 1
    with res show ?thesis by simp
  next
    case 2
    have "npcm_clk_get_fin (clk_get_rate 0) c s = Inl Nesting_Exhausted"
      using fx par by (simp add: get_fin_fixed)
    with 2 res pll clk show ?thesis
      by (auto simp add: npcm_clk_get_rate_def npcm_clk_get_pll_rate_def)
  next
    case 3
    from res show ?thesis
      unfolding 3 clk_get_rate_pll [OF pll clk] same
      by (auto split: sum.splits)
  qed
qed

lemma ceil_div_formula:
  assumes "0 < b"
  shows "(a + b - 1) div b = ceil_div a b"
proof (cases "b dvd a")
  case True
  then obtain q where q: "a = b * q" ..
  have "(b * q + b - 1) div b = q"
    using assms by (intro div_nat_eqI) (simp_all add: algebra_simps)
  with True q assms show ?thesis by (simp add: ceil_div_def)
next
  case False
  define q r where "q = a div b" and "r = a mod b"
  have a: "q * b + r = a" by (simp add: q_def r_def)
  have r: "0 < r" "r < b" using False assms by (auto simp add: r_def dvd_eq_mod_eq_0)
  have "(q * b + r + b - 1) div b = q + 1"
    using r by (intro div_nat_eqI) (simp_all add: algebra_simps)
  then have "(a + b - 1) div b = a div b + 1" unfolding a by (simp only: q_def)
  with False show ?thesis by (simp add: ceil_div_def)
qed

lemma ceil_div_least:
  assumes "0 < b"
  shows "a \<le> ceil_div a b * b" and "a \<le> d * b \<Longrightarrow> ceil_div a b \<le> d"
proof -
  have lt: "a < (a div b + 1) * b"
    using assms dividend_less_div_times [of b a] by (simp add: algebra_simps)
  then show "a \<le> ceil_div a b * b"
    by (auto simp add: ceil_div_def)
  assume le: "a \<le> d * b"
  show "ceil_div a b \<le> d"
  proof (cases "b dvd a")
    case True
    from le have "a div b \<le> d * b div b" by (rule div_le_mono)
    with True assms show ?thesis by (simp add: ceil_div_def)
  next
    case False
    have "a div b < d"
    proof (rule ccontr)
      assume "\<not> a div b < d"
      then have "d * b \<le> a div b * b" by simp
      also have "\<dots> \<le> a" by simp
      finally have "a = d * b" using le by simp
      then have "b dvd a" by simp
      with False show False by simp
    qed
    with False show ?thesis by (simp add: ceil_div_def)
  qed
qed

lemma DIV_ROUND_UP_unat:
  assumes "d \<noteq> 0" "unat n + unat d \<le> 2 ^ 64"
  shows "unat (DIV_ROUND_UP n d) = ceil_div (unat n) (unat d)"
proof -
  have pos: "0 < unat d" using assms(1) by (simp add: unat_gt_0)
  have d1: "unat (d - 1) = unat d - 1" using assms(1) by (simp add: unat_minus_one)
  have "unat n + unat (d - 1) < 2 ^ 64" using assms(2) pos d1 by simp
  then have "unat (n + (d - 1)) = unat n + unat (d - 1)"
    by (simp add: unat_add_lem [THEN iffD1])
  moreover have "unat (n + d - 1) = unat (n + (d - 1))" by (simp add: algebra_simps)
  ultimately have "unat (n + d - 1) = unat n + unat d - 1" using d1 pos by simp
  then show ?thesis
    unfolding DIV_ROUND_UP_def unat_div by (simp only: ceil_div_formula [OF pos])
qed

lemma field_insert_GENMASK:
  "l \<le> h \<Longrightarrow> h < 32 \<Longrightarrow>
   field_insert (GENMASK h l) v x = (x AND NOT (GENMASK h l)) OR (push_bit l v AND GENMASK h l)"
  by (simp add: field_insert_def ffs_GENMASK)

lemma field_insert_idem:
  "field_insert m v (field_insert m w x) = field_insert m v x"
  unfolding field_insert_def by (rule insert_insert)

lemma field_insert_extract:
  "l \<le> h \<Longrightarrow> h < 32 \<Longrightarrow>
   take_bit (Suc h - l) (drop_bit l (field_insert (GENMASK h l) v x)) = take_bit (Suc h - l) v"
  by (simp only: field_insert_GENMASK insert_extract_GENMASK)

lemma set_fout_settable:
  assumes set: "i \<in> {CLK_SDHC, CLK_UART1, CLK_UART2}"
      and get: "npcm_clk_get i = Some clk"
  shows "npcm_clk_set_fout (clk_get_rate n) i rate s =
    (case clk_get_rate n (parent_id clk)
            (s(CLKSEL := field_insert (sel_mask clk) (sel_val clk) (s CLKSEL))) of
       Inl e \<Rightarrow> Inl e
     | Inr (parent_rate, s2) \<Rightarrow>
         if rate = 0 then Inl UB_Divide_By_Zero
         else if (ucast (DIV_ROUND_UP parent_rate rate) :: u32) = 0 then Inl UB_Divide_By_Zero
         else Inr (parent_rate div ucast (ucast (DIV_ROUND_UP parent_rate rate) :: u32),
                   (s(CLKSEL := field_insert (sel_mask clk) (sel_val clk) (s CLKSEL)))
                     (unat (reg_clkdiv clk) :=
                        field_insert (div_mask clk) (ucast (DIV_ROUND_UP parent_rate rate) - 1)
                          (s (unat (reg_clkdiv clk))))))"
proof -
  from settable_node_shape [OF set get] obtain hs ls h l pc where
    sm: "sel_mask clk = GENMASK hs ls" "ls \<le> hs" "hs < 32"
    and dm: "div_mask clk = GENMASK h l" "l \<le> h" "h < 32"
    and t1: "flags clk AND DIV_TYPE1 \<noteq> 0" and nf: "flags clk AND FIXED_SRC = 0"
    and par: "clksel_to_clkid (ucast (take_bit (Suc hs - ls) (sel_val clk))) (GENMASK hs ls)
                = parent_id clk"
    and pll: "parent_id clk \<in> {CLK_PLL0, CLK_PLL1, CLK_PLL2, CLK_PLL2DIV2}"
    and ne: "unat (reg_clkdiv clk) \<noteq> CLKSEL"
    by blast
  let ?s1 = "s(CLKSEL := field_insert (sel_mask clk) (sel_val clk) (s CLKSEL))"
  have req: "clk_request (parent_id clk) = 0" using pll by auto
  have prog: "take_bit (Suc hs - ls) (drop_bit ls (?s1 CLKSEL))
                = take_bit (Suc hs - ls) (sel_val clk)"
    using sm by (simp add: field_insert_extract)
  have fin: "npcm_clk_get_fin (clk_get_rate n) clk ?s1 = clk_get_rate n (parent_id clk) ?s1"
    using nf sm par req prog by (rule get_fin_programmed)
  have s1: "s(CLKSEL := (s CLKSEL AND NOT (GENMASK hs ls))
                 OR (push_bit ls (sel_val clk) AND GENMASK hs ls)) = ?s1"
    using sm by (simp add: field_insert_GENMASK)
  show ?thesis
  proof (cases "clk_get_rate n (parent_id clk) ?s1")
    case (Inl e)
    then show ?thesis
      unfolding set_fout_expand [OF get sm dm t1] s1 fin by simp
  next
    case (Inr x)
    obtain pr s2 where x: "x = (pr, s2)" by (cases x)
    with Inr have "s2 = ?s1" using clk_get_rate_preserves by blast
    with Inr x ne dm show ?thesis
      unfolding set_fout_expand [OF get sm dm t1] s1 fin
      by (simp add: field_insert_GENMASK)
  qed
qed

lemma ceil_div_pos: "0 < a \<Longrightarrow> 0 < b \<Longrightarrow> 1 \<le> ceil_div a b"
  using ceil_div_least(1) [of b a] by (cases "ceil_div a b") simp_all

lemma set_rate_eval:
  assumes set: "i \<in> {CLK_SDHC, CLK_UART1, CLK_UART2}"
      and get: "npcm_clk_get i = Some clk"
      and pr: "clk_get_rate n (parent_id clk)
                 (s(CLKSEL := field_insert (sel_mask clk) (sel_val clk) (s CLKSEL))) = Inr (pr, s2)"
      and rate: "rate \<noteq> 0"
      and dv: "dv = ucast (DIV_ROUND_UP pr rate)" "dv \<noteq> 0"
  shows "npcm_clk_set_rate (clk_get_rate n) i rate s =
           Inr (pr div ucast dv,
                (s(CLKSEL := field_insert (sel_mask clk) (sel_val clk) (s CLKSEL)))
                  (unat (reg_clkdiv clk) :=
                     field_insert (div_mask clk) (dv - 1) (s (unat (reg_clkdiv clk)))))"
proof -
  from set have "npcm_clk_set_rate (clk_get_rate n) i rate s
      = npcm_clk_set_fout (clk_get_rate n) i rate s"
    by (auto simp add: npcm_clk_set_rate_def)
  then show ?thesis
    unfolding set_fout_settable [OF set get] pr using rate dv by simp
qed

lemma settable_no_prediv:
  assumes "i \<in> {CLK_SDHC, CLK_UART1, CLK_UART2}" and "npcm_clk_get i = Some clk"
  shows "flags clk AND PRE_DIV2 = 0"
  using assms by (auto simp add: npcm_clk_get_simps flag_vals)

lemma set_rate_result:
  assumes set: "i \<in> {CLK_SDHC, CLK_UART1, CLK_UART2}"
      and get: "npcm_clk_get i = Some clk"
      and res: "npcm_clk_set_rate (clk_get_rate n) i rate s = Inr (r, s')"
  obtains pr where
    "clk_get_rate n (parent_id clk) s' = Inr (pr, s')"
    "npcm_clk_get_fin (clk_get_rate n) clk s' = Inr (pr, s')"
    "rate \<noteq> 0" "(ucast (DIV_ROUND_UP pr rate) :: u32) \<noteq> 0"
    "r = pr div ucast (ucast (DIV_ROUND_UP pr rate) :: u32)"
    "s' = (s(CLKSEL := field_insert (sel_mask clk) (sel_val clk) (s CLKSEL)))
            (unat (reg_clkdiv clk) :=
               field_insert (div_mask clk) (ucast (DIV_ROUND_UP pr rate) - 1)
                 (s (unat (reg_clkdiv clk))))"
proof -
  from settable_node_shape [OF set get] obtain hs ls pc where
    sm: "sel_mask clk = GENMASK hs ls" "ls \<le> hs" "hs < 32"
    and nf: "flags clk AND FIXED_SRC = 0"
    and par: "clksel_to_clkid (ucast (take_bit (Suc hs - ls) (sel_val clk))) (GENMASK hs ls)
                = parent_id clk"
    and pll: "parent_id clk \<in> {CLK_PLL0, CLK_PLL1, CLK_PLL2, CLK_PLL2DIV2}"
    and pc: "npcm_clk_get (parent_id clk) = Some pc"
    and ne: "unat (reg_clkdiv clk) \<noteq> CLKSEL"
    and ne2: "unat (reg_clkdiv clk) \<noteq> unat (reg_clkdiv pc)"
    by blast
  let ?reg = "unat (reg_clkdiv clk)"
  let ?s1 = "s(CLKSEL := field_insert (sel_mask clk) (sel_val clk) (s CLKSEL))"
  from set have sr: "npcm_clk_set_rate (clk_get_rate n) i rate s
      = npcm_clk_set_fout (clk_get_rate n) i rate s"
    by (auto simp add: npcm_clk_set_rate_def)
  from res obtain pr s2 where
    pr: "clk_get_rate n (parent_id clk) ?s1 = Inr (pr, s2)"
    unfolding sr set_fout_settable [OF set get]
    by (cases "clk_get_rate n (parent_id clk) ?s1") auto
  let ?dv = "ucast (DIV_ROUND_UP pr rate) :: u32"
  from res pr have ok: "rate \<noteq> 0" "?dv \<noteq> 0"
    and r: "r = pr div ucast ?dv"
    and s': "s' = ?s1(?reg := field_insert (div_mask clk) (?dv - 1) (s ?reg))"
    unfolding sr set_fout_settable [OF set get]
    by (auto split: if_splits)
  have "s' (unat (reg_clkdiv pc)) = ?s1 (unat (reg_clkdiv pc))"
    using ne2 by (simp add: s')
  from pll_frame [where t = s' and s = "?s1", OF pll pc pr this]
  have pr': "clk_get_rate n (parent_id clk) s' = Inr (pr, s')" .
  have "s' CLKSEL = ?s1 CLKSEL" using ne by (simp add: s')
  then have prog: "take_bit (Suc hs - ls) (drop_bit ls (s' CLKSEL))
                = take_bit (Suc hs - ls) (sel_val clk)"
    using sm by (simp add: field_insert_extract)
  have req: "clk_request (parent_id clk) = 0" using pll by auto
  have "npcm_clk_get_fin (clk_get_rate n) clk s' = clk_get_rate n (parent_id clk) s'"
    using nf sm par req prog by (rule get_fin_programmed)
  with pr' have "npcm_clk_get_fin (clk_get_rate n) clk s' = Inr (pr, s')" by simp
  with pr' ok r s' that show thesis by blast
qed

subsection \<open>Example register files\<close>

lemma pll0_example:
  assumes "s 12 = 0x00402201"
  shows "clk_get_rate (Suc (Suc n)) CLK_PLL0 s = Inr (800000000, s)"
  using assms
  by (simp add: clk_get_rate_pll [OF _ npcm_clk_get_simps(1)] pll_out_def flag_vals
      REFCLK_25M_def PLLCON0_def del: clk_get_rate.simps)

lemma sdhc_fin_example:
  assumes "s CLKSEL = 0" "s 12 = 0x00402201"
  shows "npcm_clk_get_fin (clk_get_rate (Suc (Suc n)))
           (mk_clk CLK_SDHC CLK_PLL0 CLKDIV1 MMCCKDIV SDCKSEL (ucast CKSEL_PLL0) DIV_TYPE1) s
         = Inr (800000000, s)"
proof -
  let ?c = "mk_clk CLK_SDHC CLK_PLL0 CLKDIV1 MMCCKDIV SDCKSEL (ucast CKSEL_PLL0) DIV_TYPE1"
  have "npcm_clk_get_fin (clk_get_rate (Suc (Suc n))) ?c s
          = clk_get_rate (Suc (Suc n)) (parent_id ?c) s"
    by (rule get_fin_programmed [where hs = 7 and ls = 6])
      (simp_all add: flag_vals SDCKSEL_def CKSEL_PLL0_def assms clksel_to_clkid_def
        npcm8xx_clksel_map_def mk_map_def CPUCKSEL_def GENMASK_def mask_eq_exp_minus_1
        push_bit_eq_mult)
  then show ?thesis
    using pll0_example [where s = s, OF assms(2)] by (simp del: clk_get_rate.simps)
qed

lemma sdhc_fields:
  "field_insert SDCKSEL (ucast CKSEL_PLL0) 0 = 0"
  "field_insert MMCCKDIV 15 0 = 0x7800"
  "field_insert MMCCKDIV 3590752191 0 = 0xF800"
  by (simp_all add: SDCKSEL_def MMCCKDIV_def field_insert_GENMASK CKSEL_PLL0_def)
    (simp_all add: GENMASK_def mask_eq_exp_minus_1 push_bit_eq_mult)

lemma pll0_fast_example:
  assumes "s 12 = 0x0FFF2101"
  shows "clk_get_rate (Suc (Suc n)) CLK_PLL0 s = Inr (102375000000, s)"
  using assms
  by (simp add: clk_get_rate_pll [OF _ npcm_clk_get_simps(1)] pll_out_def flag_vals
      REFCLK_25M_def PLLCON0_def del: clk_get_rate.simps)

lemma pll2div2_example:
  assumes "s 84 = 0x00402201"
  shows "clk_get_rate (Suc (Suc n)) CLK_PLL2DIV2 s = Inr (400000000, s)"
  using assms
  by (simp add: clk_get_rate_pll [OF _ npcm_clk_get_simps(4)] pll_out_def flag_vals
      REFCLK_25M_def PLLCON2_def del: clk_get_rate.simps)

lemma sdhc_set_example:
  assumes "s 4 = 0" "s 8 = 0" "s 12 = 0x00402201"
  shows "npcm_clk_set_rate (clk_get_rate (Suc (Suc n))) CLK_SDHC 50000000 s
           = Inr (50000000, s(4 := 0, 8 := 0x7800))"
    and "npcm_clk_set_rate (clk_get_rate (Suc (Suc n))) CLK_SDHC 1000000 s
           = Inr (1000000, s(4 := 0, 8 := 0xF800))"
proof -
  let ?c = "mk_clk CLK_SDHC CLK_PLL0 CLKDIV1 MMCCKDIV SDCKSEL (ucast CKSEL_PLL0) DIV_TYPE1"
  have i: "CLK_SDHC \<in> {CLK_SDHC, CLK_UART1, CLK_UART2}" by simp
  have c: "npcm_clk_get CLK_SDHC = Some ?c" by (simp add: npcm_clk_get_simps)
  have s1: "s(CLKSEL := field_insert (sel_mask ?c) (sel_val ?c) (s CLKSEL)) = s(4 := 0)"
    by (simp add: assms sdhc_fields CLKSEL_def)
  have pr: "clk_get_rate (Suc (Suc n)) (parent_id ?c)
              (s(CLKSEL := field_insert (sel_mask ?c) (sel_val ?c) (s CLKSEL)))
            = Inr (800000000, s(4 := 0))"
    unfolding s1 using pll0_example [where s = "s(4 := 0)"] assms(3)
    by (simp del: clk_get_rate.simps)
  have dv: "(16 :: u32) = ucast (DIV_ROUND_UP 800000000 50000000 :: ulong)"
    by (simp add: DIV_ROUND_UP_def)
  have dv': "(800 :: u32) = ucast (DIV_ROUND_UP 800000000 1000000 :: ulong)"
    by (simp add: DIV_ROUND_UP_def)
  have f: "field_insert MMCCKDIV 799 0 = 0xF800"
    by (simp add: MMCCKDIV_def field_insert_GENMASK)
      (simp add: GENMASK_def mask_eq_exp_minus_1 push_bit_eq_mult)
  from set_rate_eval [OF i c pr _ dv]
  show "npcm_clk_set_rate (clk_get_rate (Suc (Suc n))) CLK_SDHC 50000000 s
           = Inr (50000000, s(4 := 0, 8 := 0x7800))"
    by (simp add: CLKSEL_def CLKDIV1_def assms sdhc_fields del: clk_get_rate.simps)
  from set_rate_eval [OF i c pr _ dv']
  show "npcm_clk_set_rate (clk_get_rate (Suc (Suc n))) CLK_SDHC 1000000 s
           = Inr (1000000, s(4 := 0, 8 := 0xF800))"
    by (simp add: CLKSEL_def CLKDIV1_def assms sdhc_fields f del: clk_get_rate.simps)
qed

lemma sdhc_set_fast_example:
  assumes "s 4 = 0" "s 8 = 0" "s 12 = 0x0FFF2101"
  shows "npcm_clk_set_rate (clk_get_rate (Suc (Suc n))) CLK_SDHC 1 s
           = Inr (28, s(4 := 0, 8 := 0xF800))"
proof -
  let ?c = "mk_clk CLK_SDHC CLK_PLL0 CLKDIV1 MMCCKDIV SDCKSEL (ucast CKSEL_PLL0) DIV_TYPE1"
  have i: "CLK_SDHC \<in> {CLK_SDHC, CLK_UART1, CLK_UART2}" by simp
  have c: "npcm_clk_get CLK_SDHC = Some ?c" by (simp add: npcm_clk_get_simps)
  have s1: "s(CLKSEL := field_insert (sel_mask ?c) (sel_val ?c) (s CLKSEL)) = s(4 := 0)"
    by (simp add: assms sdhc_fields CLKSEL_def)
  have pr: "clk_get_rate (Suc (Suc n)) (parent_id ?c)
              (s(CLKSEL := field_insert (sel_mask ?c) (sel_val ?c) (s CLKSEL)))
            = Inr (102375000000, s(4 := 0))"
    unfolding s1 using pll0_fast_example [where s = "s(4 := 0)"] assms(3)
    by (simp del: clk_get_rate.simps)
  have dv: "(3590752192 :: u32) = ucast (DIV_ROUND_UP 102375000000 1 :: ulong)"
    by (simp add: DIV_ROUND_UP_def)
  from set_rate_eval [OF i c pr _ dv]
  show ?thesis
    by (simp add: CLKSEL_def CLKDIV1_def assms sdhc_fields del: clk_get_rate.simps)
qed

lemma sdhc_set_wrap_example:
  assumes "s 4 = 0" "s 12 = 0x00402201"
  shows "npcm_clk_set_rate (clk_get_rate (Suc (Suc n))) CLK_SDHC 0xFFFFFFFFFFFFFFFF s
           = Inl UB_Divide_By_Zero"
proof -
  let ?c = "mk_clk CLK_SDHC CLK_PLL0 CLKDIV1 MMCCKDIV SDCKSEL (ucast CKSEL_PLL0) DIV_TYPE1"
  have i: "CLK_SDHC \<in> {CLK_SDHC, CLK_UART1, CLK_UART2}" by simp
  have c: "npcm_clk_get CLK_SDHC = Some ?c" by (simp add: npcm_clk_get_simps)
  have s1: "s(CLKSEL := field_insert (sel_mask ?c) (sel_val ?c) (s CLKSEL)) = s(4 := 0)"
    by (simp add: assms sdhc_fields CLKSEL_def)
  have pr: "clk_get_rate (Suc (Suc n)) (parent_id ?c)
              (s(CLKSEL := field_insert (sel_mask ?c) (sel_val ?c) (s CLKSEL)))
            = Inr (800000000, s(4 := 0))"
    unfolding s1 using pll0_example [where s = "s(4 := 0)"] assms(2)
    by (simp del: clk_get_rate.simps)
  have dv: "(ucast (DIV_ROUND_UP 800000000 0xFFFFFFFFFFFFFFFF :: ulong) :: u32) = 0"
    by (simp add: DIV_ROUND_UP_def)
  have "npcm_clk_set_rate (clk_get_rate (Suc (Suc n))) CLK_SDHC 0xFFFFFFFFFFFFFFFF s
      = npcm_clk_set_fout (clk_get_rate (Suc (Suc n))) CLK_SDHC 0xFFFFFFFFFFFFFFFF s"
    by (simp add: npcm_clk_set_rate_def)
  then show ?thesis
    unfolding set_fout_settable [OF i c] pr using dv by simp
qed

lemma uart1_fields:
  "field_insert UARTCKSEL (ucast CKSEL_PLL2) 0 = 0x300"
  "field_insert UARTDIV1 16 0 = 0x100000"
  by (simp_all add: UARTCKSEL_def UARTDIV1_def field_insert_GENMASK CKSEL_PLL2_def)
    (simp_all add: GENMASK_def mask_eq_exp_minus_1 push_bit_eq_mult)

lemma uart1_set_example:
  assumes "s 4 = 0" "s 8 = 0" "s 84 = 0x00402201"
  shows "npcm_clk_set_rate (clk_get_rate (Suc (Suc n))) CLK_UART1 24000000 s
           = Inr (23529411, s(4 := 0x300, 8 := 0x100000))"
proof -
  let ?c = "mk_clk CLK_UART1 CLK_PLL2DIV2 CLKDIV1 UARTDIV1 UARTCKSEL (ucast CKSEL_PLL2) DIV_TYPE1"
  have i: "CLK_UART1 \<in> {CLK_SDHC, CLK_UART1, CLK_UART2}" by simp
  have c: "npcm_clk_get CLK_UART1 = Some ?c" by (simp add: npcm_clk_get_simps)
  have s1: "s(CLKSEL := field_insert (sel_mask ?c) (sel_val ?c) (s CLKSEL)) = s(4 := 0x300)"
    by (simp add: assms uart1_fields CLKSEL_def)
  have pr: "clk_get_rate (Suc (Suc n)) (parent_id ?c)
              (s(CLKSEL := field_insert (sel_mask ?c) (sel_val ?c) (s CLKSEL)))
            = Inr (400000000, s(4 := 0x300))"
    unfolding s1 using pll2div2_example [where s = "s(4 := 0x300)"] assms(3)
    by (simp del: clk_get_rate.simps)
  have dv: "(17 :: u32) = ucast (DIV_ROUND_UP 400000000 24000000 :: ulong)"
    by (simp add: DIV_ROUND_UP_def)
  from set_rate_eval [OF i c pr _ dv]
  show ?thesis
    by (simp add: CLKSEL_def CLKDIV1_def assms uart1_fields del: clk_get_rate.simps)
qed

lemma get_fout_formula:
  assumes gen: "i \<in> {CLK_AHB, CLK_APB2, CLK_APB5, CLK_UART1, CLK_UART2, CLK_SDHC}"
      and get: "npcm_clk_get i = Some clk"
      and fin: "npcm_clk_get_fin cgr clk s = Inr (fin, s')"
      and field: "field = unat (drop_bit (ffs (div_mask clk) - 1)
                                 (readl s' (unat (reg_clkdiv clk)) AND div_mask clk))"
  shows "((flags clk AND DIV_TYPE1 \<noteq> 0) \<noteq> (flags clk AND DIV_TYPE2 \<noteq> 0)) \<and>
         (\<exists>r. npcm_clk_get_fout cgr i s = Inr (r, s') \<and>
              unat r = unat fin div
                ((if flags clk AND DIV_TYPE1 \<noteq> 0 then field + 1 else 2 ^ field)
                  * (if flags clk AND PRE_DIV2 \<noteq> 0 then 2 else 1)))"
proof -
  from generic_node_shape [OF gen get] obtain h l where
    dm: "div_mask clk = GENMASK h l" "l \<le> h" "h < 32"
    and width: "if flags clk AND DIV_TYPE1 \<noteq> 0 then Suc h - l \<le> 5 else Suc h - l \<le> 2"
    and excl: "(flags clk AND DIV_TYPE1 \<noteq> 0) \<noteq> (flags clk AND DIV_TYPE2 \<noteq> 0)"
    by blast
  have "field = unat (take_bit (Suc h - l) (drop_bit l (s' (unat (reg_clkdiv clk)))))"
    unfolding field readl_def dm(1) using dm(2,3)
    by (simp only: ffs_GENMASK extract_GENMASK diff_Suc_1)
  from fout_generic [OF get fin dm width this] excl show ?thesis by simp
qed

section \<open>The claims\<close>

text \<open>
  C1. For every PLL node, resolving its output frequency reads the PLL control
  register, extracts the input divider (bits 5..0), the feedback divider (bits 27..16),
  output divider 1 (bits 10..8) and output divider 2 (bits 15..13), and returns
  \<open>(inputFrequency * feedbackDivider) / (inputDivider * outputDivider1 * outputDivider2)\<close>,
  halved once more when \<open>POST_DIV2\<close> is set. The input frequency is the 25 MHz
  reference; the product is formed in 64 bits and does not wrap. The formula is stated
  for a non-zero divisor. The register file is left as it was.
\<close>

theorem pll_rate_formula:
  assumes pll: "i \<in> {CLK_PLL0, CLK_PLL1, CLK_PLL2, CLK_PLL2DIV2}"
      and clk: "npcm_clk_get i = Some clk"
      and val: "val = readl s (unat (reg_clkdiv clk))"
      and indv: "indv = unat (take_bit 6 val)"
      and fbdv: "fbdv = unat (take_bit 12 (drop_bit 16 val))"
      and otdv1: "otdv1 = unat (take_bit 3 (drop_bit 8 val))"
      and otdv2: "otdv2 = unat (take_bit 3 (drop_bit 13 val))"
      and nz: "indv * otdv1 * otdv2 \<noteq> 0"
  shows "npcm_clk_get_fin (clk_get_rate (Suc n)) clk s = Inr (REFCLK_25M, s) \<and>
         (\<exists>r. npcm_clk_get_pll_rate (clk_get_rate (Suc n)) i s = Inr (r, s) \<and>
              unat r = unat REFCLK_25M * fbdv div (indv * otdv1 * otdv2)
                         div (if flags clk AND POST_DIV2 \<noteq> 0 then 2 else 1))"
proof -
  have fx: "flags clk AND FIXED_SRC \<noteq> 0" and par: "parent_id clk = CLK_REFCLK"
    using pll clk by (auto simp add: npcm_clk_get_simps flag_vals)
  have fin: "npcm_clk_get_fin (clk_get_rate (Suc n)) clk s = Inr (REFCLK_25M, s)"
    using fx par by (simp add: get_fin_fixed REFCLK_rate del: clk_get_rate.simps)
  have small: "unat REFCLK_25M < 2 ^ 52" by (simp add: REFCLK_25M_def)
  note base = pll_base_unat [of val] and prod = pll_prod_unat [OF small, of val]
  have bnz: "(ucast (ucast (take_bit 6 val) * ucast (take_bit 3 (drop_bit 8 val))
               * (ucast (take_bit 3 (drop_bit 13 val)) :: ulong)) :: u32) \<noteq> 0"
  proof
    assume "(ucast (ucast (take_bit 6 val) * ucast (take_bit 3 (drop_bit 8 val))
               * (ucast (take_bit 3 (drop_bit 13 val)) :: ulong)) :: u32) = 0"
    then show False using base nz by (simp add: indv otdv1 otdv2)
  qed
  show ?thesis
    using fin bnz base prod
    by (simp add: pll_rate_expand [OF clk fin] Let_def val [symmetric, unfolded readl_def]
        unat_div indv fbdv otdv1 otdv2 del: clk_get_rate.simps)
qed

text \<open>
  With input divider 1, feedback divider 64, output divider 1 equal to 2 and output
  divider 2 equal to 1 (the register value \<open>0x00402201\<close>) the rate of \<open>CLK_PLL0\<close> is
  800,000,000 Hz, and that of \<open>CLK_PLL2DIV2\<close>, which has \<open>POST_DIV2\<close>, 400,000,000 Hz.
\<close>

theorem pll_rate_formula_witness:
  "(\<exists>r. npcm_clk_get_pll_rate (clk_get_rate (Suc 0)) CLK_PLL0
          ((\<lambda>_. 0)(12 := 0x00402201, 84 := 0x00402201)) =
         Inr (r, (\<lambda>_. 0)(12 := 0x00402201, 84 := 0x00402201)) \<and> unat r = 800000000) \<and>
   (\<exists>r. npcm_clk_get_pll_rate (clk_get_rate (Suc 0)) CLK_PLL2DIV2
          ((\<lambda>_. 0)(12 := 0x00402201, 84 := 0x00402201)) =
         Inr (r, (\<lambda>_. 0)(12 := 0x00402201, 84 := 0x00402201)) \<and> unat r = 400000000)"
proof -
  let ?s = "(\<lambda>_. 0)(12 := 0x00402201, 84 := 0x00402201) :: regs"
  let ?c0 = "mk_clk CLK_PLL0 CLK_REFCLK PLLCON0 NONE NONE NONE FIXED_SRC"
  let ?c2 = "mk_clk CLK_PLL2DIV2 CLK_REFCLK PLLCON2 NONE NONE NONE (FIXED_SRC OR POST_DIV2)"
  have i0: "CLK_PLL0 \<in> {CLK_PLL0, CLK_PLL1, CLK_PLL2, CLK_PLL2DIV2}"
   and i2: "CLK_PLL2DIV2 \<in> {CLK_PLL0, CLK_PLL1, CLK_PLL2, CLK_PLL2DIV2}" by simp_all
  have c0: "npcm_clk_get CLK_PLL0 = Some ?c0" and c2: "npcm_clk_get CLK_PLL2DIV2 = Some ?c2"
    by (simp_all add: npcm_clk_get_simps)
  have v0: "0x00402201 = readl ?s (unat (reg_clkdiv ?c0))"
   and v2: "0x00402201 = readl ?s (unat (reg_clkdiv ?c2))"
    by (simp_all add: readl_def PLLCON0_def PLLCON2_def)
  have nz: "unat (take_bit 6 (0x00402201 :: u32)) * unat (take_bit 3 (drop_bit 8 (0x00402201 :: u32)))
      * unat (take_bit 3 (drop_bit 13 (0x00402201 :: u32))) \<noteq> 0" by simp
  have f0: "flags ?c0 AND POST_DIV2 = 0" and f2: "flags ?c2 AND POST_DIV2 \<noteq> 0"
    by (simp_all add: flag_vals)
  from pll_rate_formula [OF i0 c0 v0 refl refl refl refl nz, of 0] obtain r0 where
    "npcm_clk_get_pll_rate (clk_get_rate (Suc 0)) CLK_PLL0 ?s = Inr (r0, ?s)"
    "unat r0 = 800000000"
    unfolding f0 by (auto simp add: REFCLK_25M_def simp del: clk_get_rate.simps)
  moreover
  from pll_rate_formula [OF i2 c2 v2 refl refl refl refl nz, of 0] obtain r2 where
    "npcm_clk_get_pll_rate (clk_get_rate (Suc 0)) CLK_PLL2DIV2 ?s = Inr (r2, ?s)"
    "unat r2 = 400000000"
    using f2 by (auto simp add: REFCLK_25M_def simp del: clk_get_rate.simps clk_simps)
  ultimately show ?thesis by blast
qed

text \<open>
  C2 (as the code has it). For every generic divided node of the table, the divider
  resolution \<open>npcm_clk_get_fout\<close> reads the node's divider register, extracts the field
  under \<open>div_mask\<close>, takes \<open>div = field + 1\<close> when \<open>DIV_TYPE1\<close> is set and
  \<open>div = 2 ^ field\<close> when \<open>DIV_TYPE2\<close> is set (exactly one of the two is), doubles \<open>div\<close>
  when \<open>PRE_DIV2\<close> is set, and returns the input frequency divided by \<open>div\<close>, rounded
  down. The rate query \<open>npcm_clk_get_rate\<close> returns that value for \<open>CLK_AHB\<close>, \<open>CLK_APB2\<close>
  and \<open>CLK_APB5\<close>; for \<open>CLK_UART1\<close>, \<open>CLK_UART2\<close> and \<open>CLK_SDHC\<close> it has no case and
  returns \<open>-ENOSYS\<close>.
\<close>

theorem get_rate_divided:
  assumes gen: "i \<in> {CLK_AHB, CLK_APB2, CLK_APB5, CLK_UART1, CLK_UART2, CLK_SDHC}"
      and get: "npcm_clk_get i = Some clk"
      and fin: "npcm_clk_get_fin cgr clk s = Inr (fin, s')"
      and field: "field = unat (drop_bit (ffs (div_mask clk) - 1)
                                 (readl s' (unat (reg_clkdiv clk)) AND div_mask clk))"
  shows "((flags clk AND DIV_TYPE1 \<noteq> 0) \<noteq> (flags clk AND DIV_TYPE2 \<noteq> 0)) \<and>
         (\<exists>r. npcm_clk_get_fout cgr i s = Inr (r, s') \<and>
              unat r = unat fin div
                ((if flags clk AND DIV_TYPE1 \<noteq> 0 then field + 1 else 2 ^ field)
                  * (if flags clk AND PRE_DIV2 \<noteq> 0 then 2 else 1)) \<and>
              npcm_clk_get_rate cgr i s =
                (if i \<in> {CLK_AHB, CLK_APB2, CLK_APB5} then Inr (r, s')
                 else Inr (word_of_int (- ENOSYS), s)))"
proof -
  from get_fout_formula [OF gen get fin field] obtain r where
    excl: "(flags clk AND DIV_TYPE1 \<noteq> 0) \<noteq> (flags clk AND DIV_TYPE2 \<noteq> 0)"
    and r: "npcm_clk_get_fout cgr i s = Inr (r, s')"
    and ur: "unat r = unat fin div
                ((if flags clk AND DIV_TYPE1 \<noteq> 0 then field + 1 else 2 ^ field)
                  * (if flags clk AND PRE_DIV2 \<noteq> 0 then 2 else 1))"
    by blast
  have "npcm_clk_get_rate cgr i s =
          (if i \<in> {CLK_AHB, CLK_APB2, CLK_APB5} then npcm_clk_get_fout cgr i s
           else Inr (word_of_int (- ENOSYS), s))"
    using gen by (auto simp add: npcm_clk_get_rate_def)
  with excl r ur show ?thesis by auto
qed

text \<open>
  With the CPU mux on PLL0 at 800 MHz and the fields \<open>CLK4DIV\<close> and \<open>APB2CKDIV\<close> both
  equal to 1: the rate query of \<open>CLK_AHB\<close> returns \<open>800 MHz / ((1 + 1) * 2)\<close>, 200 MHz,
  and that of \<open>CLK_APB2\<close>, whose input is \<open>CLK_AHB\<close>, \<open>200 MHz / 2 ^ 1\<close>, 100 MHz.
\<close>

theorem get_rate_divided_witness:
  "clk_get_rate 3 CLK_AHB ((\<lambda>_. 0)(8 := 0x04000000, 12 := 0x00402201, 44 := 0x04000000))
     = Inr (200000000, (\<lambda>_. 0)(8 := 0x04000000, 12 := 0x00402201, 44 := 0x04000000)) \<and>
   npcm_clk_get_fin (clk_get_rate 3)
     (mk_clk CLK_APB2 CLK_AHB CLKDIV2 APB2CKDIV NONE NONE (FIXED_SRC OR DIV_TYPE2))
     ((\<lambda>_. 0)(8 := 0x04000000, 12 := 0x00402201, 44 := 0x04000000))
     = Inr (200000000, (\<lambda>_. 0)(8 := 0x04000000, 12 := 0x00402201, 44 := 0x04000000)) \<and>
   clk_get_rate 4 CLK_APB2 ((\<lambda>_. 0)(8 := 0x04000000, 12 := 0x00402201, 44 := 0x04000000))
     = Inr (100000000, (\<lambda>_. 0)(8 := 0x04000000, 12 := 0x00402201, 44 := 0x04000000))"
proof -
  let ?s = "(\<lambda>_. 0)(8 := 0x04000000, 12 := 0x00402201, 44 := 0x04000000) :: regs"
  let ?a = "mk_clk CLK_AHB (CLK_INVALID (- 1)) CLKDIV1 CLK4DIV CPUCKSEL NONE (DIV_TYPE1 OR PRE_DIV2)"
  let ?b = "mk_clk CLK_APB2 CLK_AHB CLKDIV2 APB2CKDIV NONE NONE (FIXED_SRC OR DIV_TYPE2)"
  have ia: "CLK_AHB \<in> {CLK_AHB, CLK_APB2, CLK_APB5, CLK_UART1, CLK_UART2, CLK_SDHC}"
   and ib: "CLK_APB2 \<in> {CLK_AHB, CLK_APB2, CLK_APB5, CLK_UART1, CLK_UART2, CLK_SDHC}"
    by simp_all
  have ca: "npcm_clk_get CLK_AHB = Some ?a" and cb: "npcm_clk_get CLK_APB2 = Some ?b"
    by (simp_all add: npcm_clk_get_simps)
  have pll: "clk_get_rate 2 CLK_PLL0 ?s = Inr (800000000, ?s)"
    unfolding fuel_numerals by (simp add: pll0_example del: clk_get_rate.simps)
  have sel: "npcm_clk_get_fin (clk_get_rate 2) ?a ?s =
      (let parent = clksel_to_clkid (ucast (take_bit (Suc 2 - 0) (drop_bit 0 (?s CLKSEL))))
                      (GENMASK 2 0)
       in if clk_request parent \<noteq> 0 then Inr (0, ?s) else clk_get_rate 2 parent ?s)"
    by (rule get_fin_sel) (simp_all add: flag_vals CPUCKSEL_def)
  have par: "clksel_to_clkid (ucast (take_bit (Suc 2 - 0) (drop_bit 0 (?s CLKSEL)))) (GENMASK 2 0)
      = CLK_PLL0"
    by (simp add: CLKSEL_def clksel_to_clkid_def CPUCKSEL_def npcm8xx_cpu_clksel_map_def
        mk_map_def CPUCKSEL_PLL0_def)
  have fa: "npcm_clk_get_fin (clk_get_rate 2) ?a ?s = Inr (800000000, ?s)"
    unfolding sel par using pll by (simp del: clk_get_rate.simps)
  have fla: "(1::nat) = unat (drop_bit (ffs (div_mask ?a) - 1)
                                 (readl ?s (unat (reg_clkdiv ?a)) AND div_mask ?a))"
    by (simp add: CLK4DIV_def ffs_GENMASK extract_GENMASK readl_def CLKDIV1_def
        del: drop_bit_and)
  from get_rate_divided [OF ia ca fa fla] obtain ra where
    "npcm_clk_get_rate (clk_get_rate 2) CLK_AHB ?s = Inr (ra, ?s)" "unat ra = 200000000"
    by (auto simp add: flag_vals simp del: clk_get_rate.simps)
  moreover from this(2) have "ra = 200000000" by (simp add: word_unat_eq_iff)
  moreover have "clk_get_rate 3 CLK_AHB ?s = npcm_clk_get_rate (clk_get_rate 2) CLK_AHB ?s"
    by (simp add: fuel_numerals)
  ultimately have ahb: "clk_get_rate 3 CLK_AHB ?s = Inr (200000000, ?s)" by simp
  have fb: "npcm_clk_get_fin (clk_get_rate 3) ?b ?s = Inr (200000000, ?s)"
    using ahb by (simp add: get_fin_fixed flag_vals del: clk_get_rate.simps)
  have flb: "(1::nat) = unat (drop_bit (ffs (div_mask ?b) - 1)
                                 (readl ?s (unat (reg_clkdiv ?b)) AND div_mask ?b))"
    by (simp add: APB2CKDIV_def ffs_GENMASK extract_GENMASK readl_def CLKDIV2_def
        del: drop_bit_and)
  from get_rate_divided [OF ib cb fb flb] obtain rb where
    "npcm_clk_get_rate (clk_get_rate 3) CLK_APB2 ?s = Inr (rb, ?s)" "unat rb = 100000000"
    by (auto simp add: flag_vals simp del: clk_get_rate.simps)
  moreover from this(2) have "rb = 100000000" by (simp add: word_unat_eq_iff)
  moreover have "clk_get_rate 4 CLK_APB2 ?s = npcm_clk_get_rate (clk_get_rate 3) CLK_APB2 ?s"
    by (simp add: fuel_numerals)
  ultimately have "clk_get_rate 4 CLK_APB2 ?s = Inr (100000000, ?s)" by simp
  with ahb fb show ?thesis by (simp del: clk_get_rate.simps)
qed

text \<open>
  C2 as stated fails for the rate query: \<open>CLK_SDHC\<close> is a generic divided node with
  \<open>DIV_TYPE1\<close>; with its input at 800 MHz and its divider field 15 the divider
  resolution gives 50 MHz, and the rate query returns \<open>-ENOSYS\<close>.
\<close>

theorem get_rate_divided_counterexample:
  "npcm_clk_get_fin (clk_get_rate 3)
     (mk_clk CLK_SDHC CLK_PLL0 CLKDIV1 MMCCKDIV SDCKSEL (ucast CKSEL_PLL0) DIV_TYPE1)
     ((\<lambda>_. 0)(12 := 0x00402201, 4 := 0, 8 := 0x7800))
     = Inr (800000000, (\<lambda>_. 0)(12 := 0x00402201, 4 := 0, 8 := 0x7800)) \<and>
   unat (drop_bit (ffs MMCCKDIV - 1) (0x7800 AND MMCCKDIV)) = 15 \<and>
   npcm_clk_get_fout (clk_get_rate 3) CLK_SDHC ((\<lambda>_. 0)(12 := 0x00402201, 4 := 0, 8 := 0x7800))
     = Inr (50000000, (\<lambda>_. 0)(12 := 0x00402201, 4 := 0, 8 := 0x7800)) \<and>
   clk_get_rate 4 CLK_SDHC ((\<lambda>_. 0)(12 := 0x00402201, 4 := 0, 8 := 0x7800))
     = Inr (0xFFFFFFFFFFFFFFDA, (\<lambda>_. 0)(12 := 0x00402201, 4 := 0, 8 := 0x7800))"
proof -
  let ?c = "mk_clk CLK_SDHC CLK_PLL0 CLKDIV1 MMCCKDIV SDCKSEL (ucast CKSEL_PLL0) DIV_TYPE1"
  let ?t = "(\<lambda>_. 0)(12 := 0x00402201, 4 := 0, 8 := 0x7800) :: regs"
  have c: "npcm_clk_get CLK_SDHC = Some ?c" by (simp add: npcm_clk_get_simps)
  have fin: "npcm_clk_get_fin (clk_get_rate 3) ?c ?t = Inr (800000000, ?t)"
    unfolding fuel_numerals by (rule sdhc_fin_example) (simp_all add: CLKSEL_def)
  have dm: "div_mask ?c = GENMASK 15 11" by (simp add: MMCCKDIV_def)
  have "npcm_clk_get_fout (clk_get_rate 3) CLK_SDHC ?t = Inr (50000000, ?t)"
    by (subst fout_expand [OF c fin dm]) (simp_all add: flag_vals CLKDIV1_def)
  moreover have "clk_get_rate 4 CLK_SDHC ?t = Inr (0xFFFFFFFFFFFFFFDA, ?t)"
    unfolding fuel_numerals by (simp add: npcm_clk_get_rate_def ENOSYS_def)
  moreover have "unat (drop_bit (ffs MMCCKDIV - 1) (0x7800 AND MMCCKDIV)) = 15"
    by (simp add: MMCCKDIV_def ffs_GENMASK extract_GENMASK del: drop_bit_and)
  ultimately show ?thesis
    using fin by blast
qed

text \<open>
  C5. For every clock id outside the cases of its \<open>switch\<close>, \<open>npcm_clk_get_rate\<close>
  returns \<open>-ENOSYS\<close>, a non-zero error code and not a rate; \<open>npcm_clk_set_rate\<close> on
  any id other than \<open>CLK_SDHC\<close>, \<open>CLK_UART1\<close> and \<open>CLK_UART2\<close> returns \<open>-ENOSYS\<close> as
  well. Neither touches a register.
\<close>

theorem get_rate_not_implemented:
  assumes "i \<notin> {CLK_REFCLK, CLK_PLL0, CLK_PLL1, CLK_PLL2, CLK_PLL2DIV2,
                   CLK_AHB, CLK_APB2, CLK_APB5}"
      and "j \<notin> {CLK_SDHC, CLK_UART1, CLK_UART2}"
  shows "npcm_clk_get_rate cgr i s = Inr (word_of_int (- ENOSYS), s) \<and>
         npcm_clk_set_rate cgr j rate s = Inr (word_of_int (- ENOSYS), s) \<and>
         (word_of_int (- ENOSYS) :: ulong) = 0xFFFFFFFFFFFFFFDA"
  using assms
  by (cases i; cases j) (simp_all add: npcm_clk_get_rate_def npcm_clk_set_rate_def ENOSYS_def)

theorem get_rate_not_implemented_witness:
  "npcm_clk_get_rate (clk_get_rate 3) CLK_SDHC (\<lambda>_. 0)
      = Inr (word_of_int (- ENOSYS), \<lambda>_. 0) \<and>
   npcm_clk_set_rate (clk_get_rate 3) CLK_AHB 1000000 (\<lambda>_. 0)
      = Inr (word_of_int (- ENOSYS), \<lambda>_. 0) \<and>
   (word_of_int (- ENOSYS) :: ulong) = 0xFFFFFFFFFFFFFFDA"
  using get_rate_not_implemented [of CLK_SDHC CLK_AHB "clk_get_rate 3" "\<lambda>_. 0" 1000000]
  by simp

text \<open>
  C7 fails on the code. For every PLL node whose input divider, output divider 1 or
  output divider 2 is zero, \<open>npcm_clk_get_pll_rate\<close> divides by their product unchecked:
  the query has no defined result (\<open>UB_Divide_By_Zero\<close> stands for undefined behaviour
  of the C program), and no \<open>DivisionByZero\<close> error is returned.
\<close>

theorem pll_zero_divisor_undefined:
  assumes pll: "i \<in> {CLK_PLL0, CLK_PLL1, CLK_PLL2, CLK_PLL2DIV2}"
      and clk: "npcm_clk_get i = Some clk"
      and val: "val = readl s (unat (reg_clkdiv clk))"
      and indv: "indv = unat (take_bit 6 val)"
      and otdv1: "otdv1 = unat (take_bit 3 (drop_bit 8 val))"
      and otdv2: "otdv2 = unat (take_bit 3 (drop_bit 13 val))"
      and zero: "indv * otdv1 * otdv2 = 0"
  shows "npcm_clk_get_pll_rate (clk_get_rate (Suc n)) i s = Inl UB_Divide_By_Zero"
proof -
  have fx: "flags clk AND FIXED_SRC \<noteq> 0" and par: "parent_id clk = CLK_REFCLK"
    using pll clk by (auto simp add: npcm_clk_get_simps flag_vals)
  have fin: "npcm_clk_get_fin (clk_get_rate (Suc n)) clk s = Inr (REFCLK_25M, s)"
    using fx par by (simp add: get_fin_fixed REFCLK_rate del: clk_get_rate.simps)
  let ?base = "(ucast (ucast (take_bit 6 val) * ucast (take_bit 3 (drop_bit 8 val))
               * (ucast (take_bit 3 (drop_bit 13 val)) :: ulong)) :: u32)"
  have "unat ?base = 0"
    using pll_base_unat [of val] zero
    by (simp add: unat_ucast_u32_ulong indv otdv1 otdv2)
  then have "?base = 0" by (simp add: unat_eq_zero)
  then show ?thesis
    by (simp add: pll_rate_expand [OF clk fin] Let_def val [symmetric, unfolded readl_def]
        del: clk_get_rate.simps)
qed

text \<open>
  With \<open>PLLCON0 = 0x00402200\<close> (input divider 0, feedback divider 64, output dividers 2
  and 1) the rate query of \<open>CLK_PLL0\<close> has no defined result.
\<close>

theorem pll_zero_divisor_undefined_witness:
  "npcm_clk_get_pll_rate (clk_get_rate (Suc 0)) CLK_PLL0 ((\<lambda>_. 0)(12 := 0x00402200))
     = Inl UB_Divide_By_Zero \<and>
   clk_get_rate 2 CLK_PLL0 ((\<lambda>_. 0)(12 := 0x00402200)) = Inl UB_Divide_By_Zero"
proof -
  let ?s = "(\<lambda>_. 0)(12 := 0x00402200) :: regs"
  let ?c = "mk_clk CLK_PLL0 CLK_REFCLK PLLCON0 NONE NONE NONE FIXED_SRC"
  have i: "CLK_PLL0 \<in> {CLK_PLL0, CLK_PLL1, CLK_PLL2, CLK_PLL2DIV2}" by simp
  have c: "npcm_clk_get CLK_PLL0 = Some ?c" by (simp add: npcm_clk_get_simps)
  have v: "0x00402200 = readl ?s (unat (reg_clkdiv ?c))"
    by (simp add: readl_def PLLCON0_def)
  have z: "unat (take_bit 6 (0x00402200 :: u32)) * unat (take_bit 3 (drop_bit 8 (0x00402200 :: u32)))
      * unat (take_bit 3 (drop_bit 13 (0x00402200 :: u32))) = 0" by simp
  have r: "npcm_clk_get_pll_rate (clk_get_rate (Suc 0)) CLK_PLL0 ?s = Inl UB_Divide_By_Zero"
    by (rule pll_zero_divisor_undefined [OF i c v refl refl refl z])
  moreover have "clk_get_rate 2 CLK_PLL0 ?s
      = npcm_clk_get_pll_rate (clk_get_rate (Suc 0)) CLK_PLL0 ?s"
    unfolding fuel_numerals by (simp add: npcm_clk_get_rate_def)
  ultimately show ?thesis by (simp del: clk_get_rate.simps)
qed

text \<open>
  C9. A rate query writes no register: whenever \<open>clk_get_rate\<close> returns, the register
  file it returns is the one it was given. A query returns whenever four nested
  queries are allowed, and allowing more does not change its outcome.
\<close>

theorem get_rate_no_writes:
  "clk_get_rate (4 + n) i s = clk_get_rate 4 i s \<and>
   clk_get_rate 4 i s \<noteq> Inl Nesting_Exhausted \<and>
   (clk_get_rate m i s = Inr (r, s') \<longrightarrow> s' = s)"
proof -
  have "clk_get_rate 4 i s \<noteq> Inl Nesting_Exhausted"
    unfolding fuel_numerals by (rule clk_get_rate_returns)
  then show ?thesis
    using clk_get_rate_fuel [of n i s] clk_get_rate_preserves [of m i s r s']
    by blast
qed

theorem get_rate_no_writes_witness:
  "clk_get_rate (4 + 1) CLK_PLL0 ((\<lambda>_. 0)(12 := 0x00402201))
     = clk_get_rate 4 CLK_PLL0 ((\<lambda>_. 0)(12 := 0x00402201)) \<and>
   clk_get_rate 4 CLK_PLL0 ((\<lambda>_. 0)(12 := 0x00402201)) \<noteq> Inl Nesting_Exhausted \<and>
   clk_get_rate 2 CLK_PLL0 ((\<lambda>_. 0)(12 := 0x00402201))
      = Inr (800000000, (\<lambda>_. 0)(12 := 0x00402201))"
proof -
  have "clk_get_rate 2 CLK_PLL0 ((\<lambda>_. 0)(12 := 0x00402201))
      = Inr (800000000, (\<lambda>_. 0)(12 := 0x00402201))"
    unfolding fuel_numerals
    by (simp add: clk_get_rate_pll [OF _ npcm_clk_get_simps(1)] pll_out_def flag_vals
        REFCLK_25M_def PLLCON0_def del: clk_get_rate.simps)
  with get_rate_no_writes [of 1 CLK_PLL0 "(\<lambda>_. 0)(12 := 0x00402201)" 2 800000000
      "(\<lambda>_. 0)(12 := 0x00402201)"]
  show ?thesis by blast
qed

text \<open>
  C3 (as the code has it). For every settable node (all three are \<open>DIV_TYPE1\<close>) and
  every target frequency above zero, when the input frequency \<open>I\<close> is above zero,
  \<open>I + target\<close> does not exceed \<open>2 ^ 64\<close> and \<open>ceil (I / target)\<close> is below \<open>2 ^ 32\<close>:
  \<open>npcm_clk_set_fout\<close> programs the mux, takes \<open>div = ceil (I / target)\<close>, which is at
  least 1, inserts \<open>div - 1\<close> into the divider field of the node's divider register,
  and returns \<open>I / div\<close>, computed from the input frequency and not read back.
\<close>

theorem set_fout_formula:
  assumes set: "i \<in> {CLK_SDHC, CLK_UART1, CLK_UART2}"
      and get: "npcm_clk_get i = Some clk"
      and fin: "npcm_clk_get_fin cgr clk
                  (writel (field_insert (sel_mask clk) (sel_val clk) (readl s CLKSEL)) CLKSEL s)
                = Inr (I, s2)"
      and pos: "0 < unat I" "0 < unat rate"
      and nowrap: "unat I + unat rate \<le> 2 ^ 64"
      and d: "d = ceil_div (unat I) (unat rate)"
      and fits: "d < 2 ^ 32"
  shows "1 \<le> d \<and> flags clk AND DIV_TYPE1 \<noteq> 0 \<and>
         (\<exists>r. npcm_clk_set_fout cgr i rate s =
                Inr (r, writel (field_insert (div_mask clk) (of_nat (d - 1))
                                  (readl s2 (unat (reg_clkdiv clk))))
                          (unat (reg_clkdiv clk)) s2) \<and>
              unat r = unat I div d)"
proof -
  from settable_node_shape [OF set get] obtain hs ls h l where
    sm: "sel_mask clk = GENMASK hs ls" "ls \<le> hs" "hs < 32"
    and dm: "div_mask clk = GENMASK h l" "l \<le> h" "h < 32"
    and t1: "flags clk AND DIV_TYPE1 \<noteq> 0"
    by blast
  have d1: "1 \<le> d" unfolding d using pos by (rule ceil_div_pos)
  have rate: "rate \<noteq> 0" using pos(2) by auto
  have up: "unat (DIV_ROUND_UP I rate) = d"
    unfolding d using rate nowrap by (rule DIV_ROUND_UP_unat)
  let ?dv = "ucast (DIV_ROUND_UP I rate) :: u32"
  have dv: "unat ?dv = d" using up fits by (simp add: unat_ucast_ulong_u32)
  have dvw: "?dv = of_nat d"
    using dv fits by (simp add: word_unat_eq_iff unat_of_nat)
  have nz: "?dv \<noteq> 0" using dv d1 by (metis not_one_le_zero unat_0)
  have sub: "?dv - 1 = of_nat (d - 1)" unfolding dvw using d1 by simp
  have res: "unat (I div ucast ?dv) = unat I div d"
    by (simp add: unat_div unat_ucast_u32_ulong dv)
  have fin': "npcm_clk_get_fin cgr clk
                (s(CLKSEL := (s CLKSEL AND NOT (GENMASK hs ls))
                     OR (push_bit ls (sel_val clk) AND GENMASK hs ls))) = Inr (I, s2)"
    using fin sm by (simp add: writel_def readl_def field_insert_GENMASK)
  have "npcm_clk_set_fout cgr i rate s =
          Inr (I div ucast ?dv,
               writel (field_insert (div_mask clk) (of_nat (d - 1))
                         (readl s2 (unat (reg_clkdiv clk))))
                 (unat (reg_clkdiv clk)) s2)"
    unfolding set_fout_expand [OF get sm dm t1] fin'
    using rate nz dm by (simp add: sub writel_def readl_def field_insert_GENMASK)
  with res d1 t1 show ?thesis by blast
qed

text \<open>
  \<open>CLK_SDHC\<close> with PLL0 at 800 MHz and a target of 50 MHz: the divisor is 16, the field
  15, the rate returned 50 MHz.
\<close>

theorem set_fout_formula_witness:
  "npcm_clk_get_fin (clk_get_rate 2)
      (mk_clk CLK_SDHC CLK_PLL0 CLKDIV1 MMCCKDIV SDCKSEL (ucast CKSEL_PLL0) DIV_TYPE1)
      ((\<lambda>_. 0)(12 := 0x00402201, 4 := 0))
     = Inr (800000000, (\<lambda>_. 0)(12 := 0x00402201, 4 := 0)) \<and>
   ceil_div 800000000 50000000 = 16 \<and>
   (\<exists>r. npcm_clk_set_fout (clk_get_rate 2) CLK_SDHC 50000000 ((\<lambda>_. 0)(12 := 0x00402201))
          = Inr (r, (\<lambda>_. 0)(12 := 0x00402201, 4 := 0, 8 := 0x7800)) \<and>
        unat r = 50000000)"
proof -
  let ?c = "mk_clk CLK_SDHC CLK_PLL0 CLKDIV1 MMCCKDIV SDCKSEL (ucast CKSEL_PLL0) DIV_TYPE1"
  let ?s0 = "(\<lambda>_. 0)(12 := 0x00402201) :: regs"
  let ?s1 = "(\<lambda>_. 0)(12 := 0x00402201, 4 := 0) :: regs"
  have i: "CLK_SDHC \<in> {CLK_SDHC, CLK_UART1, CLK_UART2}" by simp
  have c: "npcm_clk_get CLK_SDHC = Some ?c" by (simp add: npcm_clk_get_simps)
  have s1: "writel (field_insert (sel_mask ?c) (sel_val ?c) (readl ?s0 CLKSEL)) CLKSEL ?s0 = ?s1"
    by (simp add: writel_def readl_def CLKSEL_def sdhc_fields)
  have fin: "npcm_clk_get_fin (clk_get_rate 2) ?c ?s1 = Inr (800000000, ?s1)"
    unfolding fuel_numerals by (rule sdhc_fin_example) (simp_all add: CLKSEL_def)
  have d: "(16::nat) = ceil_div (unat (800000000::ulong)) (unat (50000000::ulong))"
    by (simp add: ceil_div_def)
  have s2: "writel (field_insert (div_mask ?c) (of_nat (16 - 1)) (readl ?s1 (unat (reg_clkdiv ?c))))
              (unat (reg_clkdiv ?c)) ?s1 = (\<lambda>_. 0)(12 := 0x00402201, 4 := 0, 8 := 0x7800)"
    by (simp add: writel_def readl_def CLKDIV1_def sdhc_fields)
  have fin0: "npcm_clk_get_fin (clk_get_rate 2) ?c
      (writel (field_insert (sel_mask ?c) (sel_val ?c) (readl ?s0 CLKSEL)) CLKSEL ?s0)
      = Inr (800000000, ?s1)"
    unfolding s1 by (rule fin)
  from set_fout_formula [OF i c fin0 _ _ _ d] obtain r where
    "npcm_clk_set_fout (clk_get_rate 2) CLK_SDHC 50000000 ?s0 =
       Inr (r, (\<lambda>_. 0)(12 := 0x00402201, 4 := 0, 8 := 0x7800))"
    "unat r = 800000000 div 16"
    unfolding s2 by auto
  with fin d [symmetric] show ?thesis by auto
qed

text \<open>
  C3 as stated fails: the divisor is a \<open>u32\<close> and nothing bounds it below. With
  \<open>PLLCON0 = 0x0FFF2101\<close> the rate of PLL0 is 102,375,000,000 Hz; for the target 1 Hz
  the quotient 102,375,000,000 is cut to 32 bits, 3,590,752,192, and the rate returned
  is 28 and not 1. With PLL0 at 800 MHz and the target \<open>2 ^ 64 - 1\<close> the sum in
  \<open>DIV_ROUND_UP\<close> wraps, the divisor is 0 and not 1, and the final division has no
  defined result.
\<close>

theorem set_fout_divisor_counterexample:
  "clk_get_rate 2 CLK_PLL0 ((\<lambda>_. 0)(12 := 0x0FFF2101, 4 := 0))
     = Inr (102375000000, (\<lambda>_. 0)(12 := 0x0FFF2101, 4 := 0)) \<and>
   npcm_clk_set_rate (clk_get_rate 2) CLK_SDHC 1 ((\<lambda>_. 0)(12 := 0x0FFF2101))
     = Inr (28, (\<lambda>_. 0)(12 := 0x0FFF2101, 4 := 0, 8 := 0xF800)) \<and>
   (102375000000 :: nat) div max 1 (ceil_div 102375000000 1) = 1 \<and>
   (ucast (DIV_ROUND_UP 102375000000 1 :: ulong) :: u32) = 3590752192 \<and>
   clk_get_rate 2 CLK_PLL0 ((\<lambda>_. 0)(12 := 0x00402201, 4 := 0))
     = Inr (800000000, (\<lambda>_. 0)(12 := 0x00402201, 4 := 0)) \<and>
   npcm_clk_set_rate (clk_get_rate 2) CLK_SDHC 0xFFFFFFFFFFFFFFFF ((\<lambda>_. 0)(12 := 0x00402201))
     = Inl UB_Divide_By_Zero \<and>
   (800000000 :: nat) div max 1 (ceil_div 800000000 0xFFFFFFFFFFFFFFFF) = 800000000 \<and>
   (ucast (DIV_ROUND_UP 800000000 0xFFFFFFFFFFFFFFFF :: ulong) :: u32) = 0"
  unfolding fuel_numerals
  by (simp add: pll0_fast_example pll0_example sdhc_set_fast_example sdhc_set_wrap_example
      ceil_div_def DIV_ROUND_UP_def del: clk_get_rate.simps)

text \<open>
  C4 (as the code has it). For every settable node and target, after
  \<open>npcm_clk_set_rate\<close> has returned, when \<open>I + target\<close> does not exceed \<open>2 ^ 64\<close> and
  \<open>ceil (I / target)\<close> is at most 32, so that the five-bit divider field holds
  \<open>div - 1\<close>: the generic divider resolution \<open>npcm_clk_get_fout\<close> of the same id returns
  exactly the value \<open>npcm_clk_set_rate\<close> returned, \<open>I / ceil (I / target)\<close>, where \<open>I\<close> is
  the input frequency. The dispatcher \<open>npcm_clk_get_rate\<close> has no case for the settable
  ids and returns \<open>-ENOSYS\<close> for them.
\<close>

theorem set_then_get_fout:
  assumes set: "i \<in> {CLK_SDHC, CLK_UART1, CLK_UART2}"
      and get: "npcm_clk_get i = Some clk"
      and res: "npcm_clk_set_rate (clk_get_rate n) i rate s = Inr (r, s')"
      and fin: "npcm_clk_get_fin (clk_get_rate n) clk s' = Inr (I, s'')"
      and nowrap: "unat I + unat rate \<le> 2 ^ 64"
      and fits: "ceil_div (unat I) (unat rate) \<le> 32"
  shows "npcm_clk_get_fout (clk_get_rate n) i s' = Inr (r, s') \<and>
         unat r = unat I div ceil_div (unat I) (unat rate) \<and>
         npcm_clk_get_rate (clk_get_rate n) i s' = Inr (word_of_int (- ENOSYS), s')"
proof -
  from settable_node_shape [OF set get] obtain h l where
    dm: "div_mask clk = GENMASK h l" "l \<le> h" "h < 32" and w: "Suc h - l = 5"
    and t1: "flags clk AND DIV_TYPE1 \<noteq> 0"
    by blast
  note np = settable_no_prediv [OF set get]
  let ?reg = "unat (reg_clkdiv clk)"
  from set_rate_result [OF set get res] obtain pr where
    fin': "npcm_clk_get_fin (clk_get_rate n) clk s' = Inr (pr, s')"
    and ok: "rate \<noteq> 0" "(ucast (DIV_ROUND_UP pr rate) :: u32) \<noteq> 0"
    and r: "r = pr div ucast (ucast (DIV_ROUND_UP pr rate) :: u32)"
    and s': "s' = (s(CLKSEL := field_insert (sel_mask clk) (sel_val clk) (s CLKSEL)))
            (?reg := field_insert (div_mask clk) (ucast (DIV_ROUND_UP pr rate) - 1) (s ?reg))"
    by blast
  from fin fin' have I: "I = pr" by simp
  let ?dv = "ucast (DIV_ROUND_UP pr rate) :: u32"
  let ?d = "ceil_div (unat pr) (unat rate)"
  have up: "unat (DIV_ROUND_UP pr rate) = ?d"
    using ok(1) nowrap unfolding I by (rule DIV_ROUND_UP_unat)
  have d32: "?d \<le> 32" using fits by (simp add: I)
  have dv: "unat ?dv = ?d" using up d32 by (simp add: unat_ucast_ulong_u32)
  have "0 < unat ?dv" using ok(2) by (simp add: unat_gt_0)
  with dv have d1: "1 \<le> ?d" by simp
  have m1: "unat (?dv - 1) = ?d - 1" using ok(2) dv by (simp add: unat_minus_one)
  have sreg: "s' ?reg = field_insert (GENMASK h l) (?dv - 1) (s ?reg)"
    by (simp add: s' dm)
  have "take_bit (Suc h - l) (drop_bit l (field_insert (GENMASK h l) (?dv - 1) (s ?reg)))
          = take_bit (Suc h - l) (?dv - 1)"
    using dm(2,3) by (rule field_insert_extract)
  then have "take_bit (Suc h - l) (drop_bit l (s' ?reg)) = take_bit 5 (?dv - 1)"
    using sreg w by simp
  moreover have "unat (take_bit 5 (?dv - 1)) = ?d - 1"
    using m1 d32 by (simp add: unsigned_take_bit_eq take_bit_nat_eq_self)
  ultimately have field: "?d - 1 = unat (take_bit (Suc h - l) (drop_bit l (s' ?reg)))"
    by simp
  have width: "if flags clk AND DIV_TYPE1 \<noteq> 0 then Suc h - l \<le> 5 else Suc h - l \<le> 2"
    using t1 w by simp
  from fout_generic [OF get fin' dm width field] obtain r' where
    r': "npcm_clk_get_fout (clk_get_rate n) i s' = Inr (r', s')"
    and ur': "unat r' = unat pr div ?d"
    using t1 np d1 by auto
  have ur: "unat r = unat pr div ?d"
    by (simp add: r unat_div unat_ucast_u32_ulong dv)
  with ur' have "r' = r" by (simp add: word_unat_eq_iff)
  moreover from set have "npcm_clk_get_rate (clk_get_rate n) i s'
      = Inr (word_of_int (- ENOSYS), s')"
    by (auto simp add: npcm_clk_get_rate_def)
  ultimately show ?thesis using r' ur I by simp
qed

text \<open>\<open>CLK_SDHC\<close> set to 50 MHz with PLL0 at 800 MHz, then resolved: 50 MHz again.\<close>

theorem set_then_get_fout_witness:
  "npcm_clk_set_rate (clk_get_rate 2) CLK_SDHC 50000000 ((\<lambda>_. 0)(12 := 0x00402201))
     = Inr (50000000, (\<lambda>_. 0)(12 := 0x00402201, 4 := 0, 8 := 0x7800)) \<and>
   npcm_clk_get_fin (clk_get_rate 2)
       (mk_clk CLK_SDHC CLK_PLL0 CLKDIV1 MMCCKDIV SDCKSEL (ucast CKSEL_PLL0) DIV_TYPE1)
       ((\<lambda>_. 0)(12 := 0x00402201, 4 := 0, 8 := 0x7800))
     = Inr (800000000, (\<lambda>_. 0)(12 := 0x00402201, 4 := 0, 8 := 0x7800)) \<and>
   ceil_div 800000000 50000000 = 16 \<and>
   npcm_clk_get_fout (clk_get_rate 2) CLK_SDHC ((\<lambda>_. 0)(12 := 0x00402201, 4 := 0, 8 := 0x7800))
     = Inr (50000000, (\<lambda>_. 0)(12 := 0x00402201, 4 := 0, 8 := 0x7800))"
proof -
  let ?c = "mk_clk CLK_SDHC CLK_PLL0 CLKDIV1 MMCCKDIV SDCKSEL (ucast CKSEL_PLL0) DIV_TYPE1"
  let ?t = "(\<lambda>_. 0)(12 := 0x00402201, 4 := 0, 8 := 0x7800) :: regs"
  have i: "CLK_SDHC \<in> {CLK_SDHC, CLK_UART1, CLK_UART2}" by simp
  have c: "npcm_clk_get CLK_SDHC = Some ?c" by (simp add: npcm_clk_get_simps)
  have res: "npcm_clk_set_rate (clk_get_rate 2) CLK_SDHC 50000000 ((\<lambda>_. 0)(12 := 0x00402201))
     = Inr (50000000, ?t)"
    unfolding fuel_numerals by (simp add: sdhc_set_example del: clk_get_rate.simps)
  have fin: "npcm_clk_get_fin (clk_get_rate 2) ?c ?t = Inr (800000000, ?t)"
    unfolding fuel_numerals by (rule sdhc_fin_example) (simp_all add: CLKSEL_def)
  have d: "ceil_div (unat (800000000::ulong)) (unat (50000000::ulong)) = 16"
    by (simp add: ceil_div_def)
  from set_then_get_fout [OF i c res fin] d res fin show ?thesis
    by (simp del: clk_get_rate.simps)
qed

text \<open>
  C4 as stated fails: after \<open>CLK_SDHC\<close> has been set to 50 MHz the rate query of
  \<open>CLK_SDHC\<close> returns \<open>-ENOSYS\<close>; and after it has been set to 1 MHz, which
  \<open>npcm_clk_set_rate\<close> returns as achieved, the divider field holds \<open>799 mod 32 = 31\<close>
  and \<open>npcm_clk_get_fout\<close> resolves 25 MHz.
\<close>

theorem set_then_get_rate_counterexample:
  "npcm_clk_set_rate (clk_get_rate 4) CLK_SDHC 50000000 ((\<lambda>_. 0)(12 := 0x00402201))
     = Inr (50000000, (\<lambda>_. 0)(12 := 0x00402201, 4 := 0, 8 := 0x7800)) \<and>
   clk_get_rate 4 CLK_SDHC ((\<lambda>_. 0)(12 := 0x00402201, 4 := 0, 8 := 0x7800))
     = Inr (0xFFFFFFFFFFFFFFDA, (\<lambda>_. 0)(12 := 0x00402201, 4 := 0, 8 := 0x7800)) \<and>
   npcm_clk_set_rate (clk_get_rate 4) CLK_SDHC 1000000 ((\<lambda>_. 0)(12 := 0x00402201))
     = Inr (1000000, (\<lambda>_. 0)(12 := 0x00402201, 4 := 0, 8 := 0xF800)) \<and>
   npcm_clk_get_fout (clk_get_rate 4) CLK_SDHC ((\<lambda>_. 0)(12 := 0x00402201, 4 := 0, 8 := 0xF800))
     = Inr (25000000, (\<lambda>_. 0)(12 := 0x00402201, 4 := 0, 8 := 0xF800))"
proof -
  let ?c = "mk_clk CLK_SDHC CLK_PLL0 CLKDIV1 MMCCKDIV SDCKSEL (ucast CKSEL_PLL0) DIV_TYPE1"
  let ?t = "(\<lambda>_. 0)(12 := 0x00402201, 4 := 0, 8 := 0xF800) :: regs"
  have c: "npcm_clk_get CLK_SDHC = Some ?c" by (simp add: npcm_clk_get_simps)
  have fin: "npcm_clk_get_fin (clk_get_rate 4) ?c ?t = Inr (800000000, ?t)"
    unfolding fuel_numerals by (rule sdhc_fin_example) (simp_all add: CLKSEL_def)
  have dm: "div_mask ?c = GENMASK 15 11" by (simp add: MMCCKDIV_def)
  have "npcm_clk_get_fout (clk_get_rate 4) CLK_SDHC ?t = Inr (25000000, ?t)"
    by (subst fout_expand [OF c fin dm]) (simp_all add: flag_vals CLKDIV1_def)
  moreover have "clk_get_rate 4 CLK_SDHC ((\<lambda>_. 0)(12 := 0x00402201, 4 := 0, 8 := 0x7800))
     = Inr (0xFFFFFFFFFFFFFFDA, (\<lambda>_. 0)(12 := 0x00402201, 4 := 0, 8 := 0x7800))"
    unfolding fuel_numerals by (simp add: npcm_clk_get_rate_def ENOSYS_def)
  ultimately show ?thesis
    unfolding fuel_numerals by (simp add: sdhc_set_example del: clk_get_rate.simps)
qed

text \<open>
  C6 (as the code has it). For every mux domain and every encoding with no entry in
  the domain's selector map, \<open>clksel_to_clkid\<close> returns \<open>-EINVAL\<close> and never a clock id;
  \<open>npcm_clk_get_fin\<close> of a node whose select field holds such an encoding then queries
  no clock and reports the input frequency 0, with the registers as they were.
\<close>

theorem unknown_selector:
  assumes unknown: "sel \<notin> clksel ` set (if sel_mask clk = CPUCKSEL then npcm8xx_cpu_clksel_map
                                          else npcm8xx_clksel_map)"
      and nofix: "flags clk AND FIXED_SRC = 0"
      and mask: "sel_mask clk \<noteq> 0"
      and sel: "sel = ucast (drop_bit (ffs (sel_mask clk) - 1) (readl s CLKSEL AND sel_mask clk))"
  shows "clksel_to_clkid sel (sel_mask clk) = CLK_INVALID (- EINVAL) \<and>
         npcm_clk_get_fin cgr clk s = Inr (0, s)"
proof -
  from unknown have "find (\<lambda>e. clksel e = sel)
      (if sel_mask clk = CPUCKSEL then npcm8xx_cpu_clksel_map else npcm8xx_clksel_map) = None"
    by (auto simp add: find_None_iff image_iff)
  then have inv: "clksel_to_clkid sel (sel_mask clk) = CLK_INVALID (- EINVAL)"
    by (simp add: clksel_to_clkid_def)
  with nofix mask sel show ?thesis
    by (simp add: npcm_clk_get_fin_def Let_def del: drop_bit_and)
qed

text \<open>The CPU mux field holding 2, which the CPU selector map does not list.\<close>

theorem unknown_selector_witness:
  "clksel_to_clkid 2 CPUCKSEL = CLK_INVALID (- EINVAL) \<and>
   npcm_clk_get_fin (clk_get_rate 3)
     (mk_clk CLK_AHB (CLK_INVALID (- 1)) CLKDIV1 CLK4DIV CPUCKSEL NONE (DIV_TYPE1 OR PRE_DIV2))
     ((\<lambda>_. 0)(4 := 2, 12 := 0x00402201))
   = Inr (0, (\<lambda>_. 0)(4 := 2, 12 := 0x00402201))"
proof -
  let ?c = "mk_clk CLK_AHB (CLK_INVALID (- 1)) CLKDIV1 CLK4DIV CPUCKSEL NONE (DIV_TYPE1 OR PRE_DIV2)"
  let ?s = "(\<lambda>_. 0)(4 := 2, 12 := 0x00402201) :: regs"
  have u: "(2::u8) \<notin> clksel ` set (if sel_mask ?c = CPUCKSEL then npcm8xx_cpu_clksel_map
                                      else npcm8xx_clksel_map)"
    by (simp add: npcm8xx_cpu_clksel_map_def mk_map_def CPUCKSEL_PLL0_def CPUCKSEL_PLL1_def
        CPUCKSEL_PLL2_def)
  have nf: "flags ?c AND FIXED_SRC = 0" by (simp add: flag_vals)
  have m: "sel_mask ?c \<noteq> 0" by (simp add: CPUCKSEL_def GENMASK_nonzero)
  have sel: "(2::u8) = ucast (drop_bit (ffs (sel_mask ?c) - 1) (readl ?s CLKSEL AND sel_mask ?c))"
    by (simp add: CPUCKSEL_def ffs_GENMASK readl_def CLKSEL_def)
      (simp add: GENMASK_def mask_eq_exp_minus_1)
  from unknown_selector [OF u nf m sel, of "clk_get_rate 3"] show ?thesis by simp
qed

text \<open>
  C6 as stated fails: the error does not reach the caller. With the CPU mux field
  holding \<open>CPUCKSEL_REFCLK\<close>, the rate query of \<open>CLK_AHB\<close> returns the rate 0.
\<close>

theorem unknown_selector_counterexample:
  "clksel_to_clkid CPUCKSEL_REFCLK CPUCKSEL = CLK_INVALID (- EINVAL) \<and>
   clk_get_rate 4 CLK_AHB ((\<lambda>_. 0)(4 := 2, 12 := 0x00402201))
     = Inr (0, (\<lambda>_. 0)(4 := 2, 12 := 0x00402201))"
proof -
  let ?c = "mk_clk CLK_AHB (CLK_INVALID (- 1)) CLKDIV1 CLK4DIV CPUCKSEL NONE (DIV_TYPE1 OR PRE_DIV2)"
  let ?s = "(\<lambda>_. 0)(4 := 2, 12 := 0x00402201) :: regs"
  have c: "npcm_clk_get CLK_AHB = Some ?c" by (simp add: npcm_clk_get_simps)
  have inv: "clksel_to_clkid 2 (GENMASK 2 0) = CLK_INVALID (- EINVAL)"
    by (simp add: clksel_to_clkid_def CPUCKSEL_def npcm8xx_cpu_clksel_map_def mk_map_def
        CPUCKSEL_PLL0_def CPUCKSEL_PLL1_def CPUCKSEL_PLL2_def)
  have sel: "npcm_clk_get_fin (clk_get_rate 3) ?c ?s =
      (let parent = clksel_to_clkid (ucast (take_bit (Suc 2 - 0) (drop_bit 0 (?s CLKSEL))))
                      (GENMASK 2 0)
       in if clk_request parent \<noteq> 0 then Inr (0, ?s) else clk_get_rate 3 parent ?s)"
    by (rule get_fin_sel) (simp_all add: flag_vals CPUCKSEL_def)
  have fin: "npcm_clk_get_fin (clk_get_rate 3) ?c ?s = Inr (0, ?s)"
    unfolding sel by (simp add: CLKSEL_def inv del: clk_get_rate.simps)
  have dm: "div_mask ?c = GENMASK 27 26" by (simp add: CLK4DIV_def)
  have "npcm_clk_get_fout (clk_get_rate 3) CLK_AHB ?s = Inr (0, ?s)"
    by (subst fout_expand [OF c fin dm]) (simp_all add: flag_vals CLKDIV1_def)
  moreover have "clk_get_rate 4 CLK_AHB ?s = npcm_clk_get_fout (clk_get_rate 3) CLK_AHB ?s"
    unfolding fuel_numerals by (simp add: npcm_clk_get_rate_def)
  ultimately show ?thesis
    using inv by (simp add: CPUCKSEL_REFCLK_def CPUCKSEL_def del: clk_get_rate.simps)
qed

text \<open>
  C8. Whenever \<open>npcm_clk_set_rate\<close> has returned a rate, invoking it again with the
  same target on the register file it left returns the same rate and leaves the same
  register file, so in particular the same mux-select and divider fields.
\<close>

theorem set_rate_idempotent:
  assumes res: "npcm_clk_set_rate (clk_get_rate n) i rate s = Inr (r, s')"
  shows "npcm_clk_set_rate (clk_get_rate n) i rate s' = Inr (r, s')"
proof (cases "i \<in> {CLK_SDHC, CLK_UART1, CLK_UART2}")
  case False
  with res show ?thesis
    by (cases i) (auto simp add: npcm_clk_set_rate_def)
next
  case True
  then obtain clk where get: "npcm_clk_get i = Some clk"
    by (auto simp add: npcm_clk_get_simps)
  from True have sr: "\<And>t. npcm_clk_set_rate (clk_get_rate n) i rate t
      = npcm_clk_set_fout (clk_get_rate n) i rate t"
    by (auto simp add: npcm_clk_set_rate_def)
  from settable_node_shape [OF True get] obtain pc where
    pll: "parent_id clk \<in> {CLK_PLL0, CLK_PLL1, CLK_PLL2, CLK_PLL2DIV2}"
    and pc: "npcm_clk_get (parent_id clk) = Some pc"
    and ne: "unat (reg_clkdiv clk) \<noteq> CLKSEL"
    and ne2: "unat (reg_clkdiv clk) \<noteq> unat (reg_clkdiv pc)"
    by blast
  let ?reg = "unat (reg_clkdiv clk)"
  let ?s1 = "s(CLKSEL := field_insert (sel_mask clk) (sel_val clk) (s CLKSEL))"
  from res obtain pr s2 where
    pr: "clk_get_rate n (parent_id clk) ?s1 = Inr (pr, s2)"
    unfolding sr set_fout_settable [OF True get]
    by (cases "clk_get_rate n (parent_id clk) ?s1") auto
  let ?dv = "ucast (DIV_ROUND_UP pr rate) :: u32"
  from res pr have ok: "rate \<noteq> 0" "?dv \<noteq> 0"
    and r: "r = pr div ucast ?dv"
    and s': "s' = ?s1(?reg := field_insert (div_mask clk) (?dv - 1) (s ?reg))"
    unfolding sr set_fout_settable [OF True get]
    by (auto split: if_splits)
  have sel: "s'(CLKSEL := field_insert (sel_mask clk) (sel_val clk) (s' CLKSEL)) = s'"
    using ne by (auto simp add: fun_eq_iff s' field_insert_idem)
  have "s' (unat (reg_clkdiv pc)) = ?s1 (unat (reg_clkdiv pc))"
    using ne2 by (simp add: s')
  from pll_frame [where t = s' and s = "?s1", OF pll pc pr this]
  have pr': "clk_get_rate n (parent_id clk) s' = Inr (pr, s')" .
  have dv: "s'(?reg := field_insert (div_mask clk) (?dv - 1) (s' ?reg)) = s'"
    by (auto simp add: fun_eq_iff s' field_insert_idem)
  show ?thesis
    unfolding sr set_fout_settable [OF True get] sel pr'
    using ok r dv by simp
qed

text \<open>\<open>CLK_SDHC\<close> set to 50 MHz twice, with PLL0 at 800 MHz.\<close>

theorem set_rate_idempotent_witness:
  "npcm_clk_set_rate (clk_get_rate 2) CLK_SDHC 50000000 ((\<lambda>_. 0)(12 := 0x00402201))
     = Inr (50000000, (\<lambda>_. 0)(12 := 0x00402201, 4 := 0, 8 := 0x7800)) \<and>
   npcm_clk_set_rate (clk_get_rate 2) CLK_SDHC 50000000
       ((\<lambda>_. 0)(12 := 0x00402201, 4 := 0, 8 := 0x7800))
     = Inr (50000000, (\<lambda>_. 0)(12 := 0x00402201, 4 := 0, 8 := 0x7800))"
proof -
  have first: "npcm_clk_set_rate (clk_get_rate 2) CLK_SDHC 50000000 ((\<lambda>_. 0)(12 := 0x00402201))
     = Inr (50000000, (\<lambda>_. 0)(12 := 0x00402201, 4 := 0, 8 := 0x7800))"
    unfolding fuel_numerals by (simp add: sdhc_set_example del: clk_get_rate.simps)
  from set_rate_idempotent [OF first] first show ?thesis by simp
qed

text \<open>
  C10. For every settable node of the table (\<open>CLK_SDHC\<close>, \<open>CLK_UART1\<close>, \<open>CLK_UART2\<close>),
  \<open>clksel_to_clkid\<close> maps the node's \<open>sel_val\<close> in the domain of its \<open>sel_mask\<close> to the
  node's \<open>parent_id\<close>; and once \<open>npcm_clk_set_rate\<close> has returned, the input frequency
  of the node is the rate of that parent.
\<close>

theorem selector_roundtrip:
  assumes set: "i \<in> {CLK_SDHC, CLK_UART1, CLK_UART2}"
      and get: "npcm_clk_get i = Some clk"
      and res: "npcm_clk_set_rate (clk_get_rate n) i rate s = Inr (r, s')"
  shows "clksel_to_clkid (ucast (sel_val clk)) (sel_mask clk) = parent_id clk \<and>
         npcm_clk_get_fin (clk_get_rate n) clk s' = clk_get_rate n (parent_id clk) s'"
proof -
  from settable_node_shape [OF set get] obtain hs ls where
    sm: "sel_mask clk = GENMASK hs ls" "ls \<le> hs" "hs < 32"
    and nf: "flags clk AND FIXED_SRC = 0"
    and par: "clksel_to_clkid (ucast (take_bit (Suc hs - ls) (sel_val clk))) (GENMASK hs ls)
                = parent_id clk"
    and par': "clksel_to_clkid (ucast (sel_val clk)) (sel_mask clk) = parent_id clk"
    and pll: "parent_id clk \<in> {CLK_PLL0, CLK_PLL1, CLK_PLL2, CLK_PLL2DIV2}"
    and ne: "unat (reg_clkdiv clk) \<noteq> CLKSEL"
    by blast
  from set have sr: "npcm_clk_set_rate (clk_get_rate n) i rate s
      = npcm_clk_set_fout (clk_get_rate n) i rate s"
    by (auto simp add: npcm_clk_set_rate_def)
  let ?s1 = "s(CLKSEL := field_insert (sel_mask clk) (sel_val clk) (s CLKSEL))"
  from res have "s' CLKSEL = ?s1 CLKSEL"
    unfolding sr set_fout_settable [OF set get] using ne
    by (auto split: sum.splits if_splits)
  then have prog: "take_bit (Suc hs - ls) (drop_bit ls (s' CLKSEL))
                = take_bit (Suc hs - ls) (sel_val clk)"
    using sm by (simp add: field_insert_extract)
  have req: "clk_request (parent_id clk) = 0" using pll by auto
  have "npcm_clk_get_fin (clk_get_rate n) clk s' = clk_get_rate n (parent_id clk) s'"
    using nf sm par req prog by (rule get_fin_programmed)
  with par' show ?thesis by simp
qed

text \<open>
  \<open>CLK_UART1\<close>, whose \<open>sel_val\<close> is \<open>CKSEL_PLL2\<close> and whose parent is \<open>CLK_PLL2DIV2\<close>: set
  to 24 MHz with PLL2 at 800 MHz, its input is the halved output, 400 MHz.
\<close>

theorem selector_roundtrip_witness:
  "npcm_clk_set_rate (clk_get_rate 2) CLK_UART1 24000000 ((\<lambda>_. 0)(84 := 0x00402201))
     = Inr (23529411, (\<lambda>_. 0)(84 := 0x00402201, 4 := 0x300, 8 := 0x100000)) \<and>
   clksel_to_clkid CKSEL_PLL2 UARTCKSEL = CLK_PLL2DIV2 \<and>
   npcm_clk_get_fin (clk_get_rate 2)
       (mk_clk CLK_UART1 CLK_PLL2DIV2 CLKDIV1 UARTDIV1 UARTCKSEL (ucast CKSEL_PLL2) DIV_TYPE1)
       ((\<lambda>_. 0)(84 := 0x00402201, 4 := 0x300, 8 := 0x100000))
     = clk_get_rate 2 CLK_PLL2DIV2 ((\<lambda>_. 0)(84 := 0x00402201, 4 := 0x300, 8 := 0x100000)) \<and>
   clk_get_rate 2 CLK_PLL2DIV2 ((\<lambda>_. 0)(84 := 0x00402201, 4 := 0x300, 8 := 0x100000))
     = Inr (400000000, (\<lambda>_. 0)(84 := 0x00402201, 4 := 0x300, 8 := 0x100000))"
proof -
  let ?c = "mk_clk CLK_UART1 CLK_PLL2DIV2 CLKDIV1 UARTDIV1 UARTCKSEL (ucast CKSEL_PLL2) DIV_TYPE1"
  have i: "CLK_UART1 \<in> {CLK_SDHC, CLK_UART1, CLK_UART2}" by simp
  have c: "npcm_clk_get CLK_UART1 = Some ?c" by (simp add: npcm_clk_get_simps)
  have res: "npcm_clk_set_rate (clk_get_rate 2) CLK_UART1 24000000 ((\<lambda>_. 0)(84 := 0x00402201))
     = Inr (23529411, (\<lambda>_. 0)(84 := 0x00402201, 4 := 0x300, 8 := 0x100000))"
    unfolding fuel_numerals by (simp add: uart1_set_example del: clk_get_rate.simps)
  have pll: "clk_get_rate 2 CLK_PLL2DIV2 ((\<lambda>_. 0)(84 := 0x00402201, 4 := 0x300, 8 := 0x100000))
     = Inr (400000000, (\<lambda>_. 0)(84 := 0x00402201, 4 := 0x300, 8 := 0x100000))"
    unfolding fuel_numerals by (simp add: pll2div2_example del: clk_get_rate.simps)
  from selector_roundtrip [OF i c res] res pll show ?thesis
    by (simp add: CKSEL_PLL2_def del: clk_get_rate.simps)
qed

end
